theory Spec2Isabelle
  imports Complex_Main
begin

section \<open>NumPy scalars\<close>

text \<open>
  The notebook computes with NumPy \<open>float64\<close> values. A value is modelled as an exact
  real number or one of the three special values of the format; rounding and overflow of
  the finite values are not modelled. The special values are kept because the notebook's
  divisions produce them: NumPy's floating division by zero returns \<open>nan\<close> or an infinity
  (with a \<open>RuntimeWarning\<close>) and raises nothing. The section on the float64 range adds
  overflow, the order of summation and the samplers' argument checks; results that depend
  on them are stated there.
\<close>

datatype npfloat = Fin real | PInf | NInf | NaN

fun np_neg :: "npfloat \<Rightarrow> npfloat" where
  "np_neg (Fin a) = Fin (- a)"
| "np_neg PInf = NInf"
| "np_neg NInf = PInf"
| "np_neg NaN = NaN"

fun np_add :: "npfloat \<Rightarrow> npfloat \<Rightarrow> npfloat" where
  "np_add NaN y = NaN"
| "np_add x NaN = NaN"
| "np_add (Fin a) (Fin b) = Fin (a + b)"
| "np_add PInf NInf = NaN"
| "np_add NInf PInf = NaN"
| "np_add PInf y = PInf"
| "np_add x PInf = PInf"
| "np_add NInf y = NInf"
| "np_add x NInf = NInf"

definition np_sub :: "npfloat \<Rightarrow> npfloat \<Rightarrow> npfloat" where
  "np_sub x y = np_add x (np_neg y)"

text \<open>The sign of an infinity scaled by a finite factor; a zero factor gives \<open>nan\<close>.\<close>

definition scale_inf :: "npfloat \<Rightarrow> real \<Rightarrow> npfloat" where
  "scale_inf i a = (if a = 0 then NaN else if 0 < a then i else np_neg i)"

fun np_mul :: "npfloat \<Rightarrow> npfloat \<Rightarrow> npfloat" where
  "np_mul NaN y = NaN"
| "np_mul x NaN = NaN"
| "np_mul (Fin a) (Fin b) = Fin (a * b)"
| "np_mul (Fin a) y = scale_inf y a"
| "np_mul x (Fin b) = scale_inf x b"
| "np_mul PInf y = y"
| "np_mul NInf y = np_neg y"

text \<open>
  True division. Every divisor of the notebook is a count or a square, so a zero divisor
  is the positive zero and \<open>a / 0\<close> takes the sign of \<open>a\<close>.
\<close>

fun np_div :: "npfloat \<Rightarrow> npfloat \<Rightarrow> npfloat" where
  "np_div NaN y = NaN"
| "np_div x NaN = NaN"
| "np_div (Fin a) (Fin b) =
     (if b \<noteq> 0 then Fin (a / b)
      else if a = 0 then NaN
      else if 0 < a then PInf else NInf)"
| "np_div (Fin a) y = Fin 0"
| "np_div x (Fin b) = (if 0 \<le> b then x else np_neg x)"
| "np_div x y = NaN"

fun np_abs :: "npfloat \<Rightarrow> npfloat" where
  "np_abs (Fin a) = Fin \<bar>a\<bar>"
| "np_abs PInf = PInf"
| "np_abs NInf = PInf"
| "np_abs NaN = NaN"

fun np_sqrt :: "npfloat \<Rightarrow> npfloat" where
  "np_sqrt (Fin a) = (if a < 0 then NaN else Fin (sqrt a))"
| "np_sqrt PInf = PInf"
| "np_sqrt NInf = NaN"
| "np_sqrt NaN = NaN"

text \<open>\<open>x ** 2\<close>\<close>

definition np_square :: "npfloat \<Rightarrow> npfloat" where
  "np_square x = np_mul x x"

section \<open>NumPy and SciPy reductions\<close>

text \<open>\<open>np.sum\<close>: the sum of no elements is \<open>0.0\<close>.\<close>

primrec np_sum :: "npfloat list \<Rightarrow> npfloat" where
  "np_sum [] = Fin 0"
| "np_sum (x # xs) = np_add x (np_sum xs)"

text \<open>\<open>np.mean\<close>: the sum divided by the number of elements.\<close>

definition np_mean :: "npfloat list \<Rightarrow> npfloat" where
  "np_mean data = np_div (np_sum data) (Fin (real (length data)))"

text \<open>
  \<open>np.var(data, ddof)\<close>: the squared deviations from the mean, summed and divided by
  \<open>max (n - ddof) 0\<close>.
\<close>

definition np_var :: "nat \<Rightarrow> npfloat list \<Rightarrow> npfloat" where
  "np_var ddof data =
     (let arrmean = np_mean data;
          x = map (\<lambda>v. np_square (np_sub v arrmean)) data
      in np_div (np_sum x) (Fin (real (length data - ddof))))"

text \<open>\<open>scipy.stats.tstd\<close> without limits: the square root of the variance with \<open>ddof = 1\<close>.\<close>

definition tstd :: "npfloat list \<Rightarrow> npfloat" where
  "tstd a = np_sqrt (np_var 1 a)"

section \<open>The notebook's functions\<close>

definition mad :: "npfloat list \<Rightarrow> npfloat" where
  "mad data =
     (let mean = np_mean data;
          absolute_deviations = map (\<lambda>x. np_abs (np_sub x mean)) data
      in np_mean absolute_deviations)"

definition get_efficiency :: "npfloat list \<Rightarrow> npfloat" where
  "get_efficiency data = np_div (np_var 0 data) (np_square (np_mean data))"

section \<open>The random samplers\<close>

text \<open>
  \<open>scipy.stats.norm.rvs\<close> and \<open>scipy.stats.binom.rvs\<close> draw from NumPy's global generator.
  The generator is an explicit state of an arbitrary type \<open>'g\<close>, and the two samplers are
  parameters: each maps its distribution parameters and a generator state to one variate
  and the next state. A normal variate is a finite real, a binomial variate an integer.
  The samplers stand for calls that the library accepts: it validates the distribution
  parameters before drawing, and the notebook calls it with a scale \<open>1 + a\<close> and a
  probability \<open>1 - p\<close> for \<open>a \<ge> 0\<close> and \<open>0 \<le> p \<le> 1\<close>.
\<close>

record 'g sampler =
  norm_draw :: "real \<Rightarrow> real \<Rightarrow> 'g \<Rightarrow> real \<times> 'g"
  binom_draw :: "int \<Rightarrow> real \<Rightarrow> 'g \<Rightarrow> int \<times> 'g"

text \<open>Drawing \<open>k\<close> times in a row, each draw starting from the state the previous one left.\<close>

fun repeat_draw :: "('g \<Rightarrow> 'a \<times> 'g) \<Rightarrow> nat \<Rightarrow> 'g \<Rightarrow> 'a list \<times> 'g" where
  "repeat_draw draw 0 g = ([], g)"
| "repeat_draw draw (Suc k) g =
     (let (x, g1) = draw g;
          (xs, g2) = repeat_draw draw k g1
      in (x # xs, g2))"

text \<open>\<open>norm.rvs(loc, scale, size)\<close> and \<open>binom.rvs(n, p, size)\<close>: an array of \<open>size\<close> variates.\<close>

definition norm_rvs :: "'g sampler \<Rightarrow> real \<Rightarrow> real \<Rightarrow> nat \<Rightarrow> 'g \<Rightarrow> real list \<times> 'g" where
  "norm_rvs rng loc scale sz = repeat_draw (norm_draw rng loc scale) sz"

definition binom_rvs :: "'g sampler \<Rightarrow> int \<Rightarrow> real \<Rightarrow> nat \<Rightarrow> 'g \<Rightarrow> int list \<times> 'g" where
  "binom_rvs rng n p sz = repeat_draw (binom_draw rng n p) sz"

text \<open>
  The elementwise expression \<open>i * X_norm + (1 - i) * X_spike\<close> at one index. The three
  arrays have the same length, so the arrays are combined index by index.
\<close>

definition mix :: "int \<Rightarrow> real \<Rightarrow> real \<Rightarrow> npfloat" where
  "mix i x_norm x_spike =
     np_add (np_mul (Fin (of_int i)) (Fin x_norm))
            (np_mul (Fin (of_int (1 - i))) (Fin x_spike))"

definition two_norms :: "'g sampler \<Rightarrow> nat \<Rightarrow> real \<Rightarrow> real \<Rightarrow> 'g \<Rightarrow> npfloat list \<times> 'g" where
  "two_norms rng num_samples a p g =
     (let mean = 0;
          sigma_norm = 1;
          sigma_spike = 1 + a;
          (X_norm, g1) = norm_rvs rng mean sigma_norm num_samples g;
          (X_spike, g2) = norm_rvs rng mean sigma_spike num_samples g1;
          (i, g3) = binom_rvs rng 1 (1 - p) num_samples g2;
          X = map (\<lambda>(i, x_norm, x_spike). mix i x_norm x_spike) (zip i (zip X_norm X_spike))
      in (X, g3))"

section \<open>The relative efficiency estimator\<close>

definition num_samples :: nat where
  "num_samples = 1000"

definition num_sets_of_samples :: nat where
  "num_sets_of_samples = 10000"

text \<open>The list comprehension that calls \<open>two_norms\<close> once per set.\<close>

definition sets_of_samples :: "'g sampler \<Rightarrow> real \<Rightarrow> real \<Rightarrow> 'g \<Rightarrow> npfloat list list \<times> 'g" where
  "sets_of_samples rng a p g =
     repeat_draw (two_norms rng num_samples a p) num_sets_of_samples g"

text \<open>The two arrays \<open>stds\<close> and \<open>mads\<close>, in this order.\<close>

definition dispersion_arrays ::
  "'g sampler \<Rightarrow> real \<Rightarrow> real \<Rightarrow> 'g \<Rightarrow> (npfloat list \<times> npfloat list) \<times> 'g" where
  "dispersion_arrays rng a p g =
     (let (sets, g') = sets_of_samples rng a p g;
          stds = map tstd sets;
          mads = map mad sets
      in ((stds, mads), g'))"

definition get_efficiency_sample :: "'g sampler \<Rightarrow> real \<Rightarrow> real \<Rightarrow> 'g \<Rightarrow> npfloat \<times> 'g" where
  "get_efficiency_sample rng a p g =
     (let ((stds, mads), g') = dispersion_arrays rng a p g;
          std_efficiency = get_efficiency stds;
          mad_efficiency = get_efficiency mads
      in (np_div std_efficiency mad_efficiency, g'))"

text \<open>The call \<open>get_efficiency_sample()\<close>, with the defaults \<open>a=0\<close> and \<open>p=0\<close>.\<close>

definition get_efficiency_sample_default :: "'g sampler \<Rightarrow> 'g \<Rightarrow> npfloat \<times> 'g" where
  "get_efficiency_sample_default rng g = get_efficiency_sample rng 0 0 g"

section \<open>A sampler that records its requests\<close>

text \<open>
  A deterministic stand-in for the library, used to run the model on concrete inputs. Its
  state is the list of requests received so far. The \<open>k\<close>-th request for a normal variate
  returns \<open>loc + scale * k\<close> (the underlying standard draws are 1, 2, 3, ...); a binomial
  request returns \<open>n\<close> when \<open>p \<ge> 1\<close> and 0 otherwise.
\<close>

datatype request = Norm_request real real | Binom_request int real

definition recording_sampler :: "request list sampler" where
  "recording_sampler =
     \<lparr> norm_draw = (\<lambda>loc scale log.
          (loc + scale * real (Suc (length log)), log @ [Norm_request loc scale])),
       binom_draw = (\<lambda>n p log.
          (if 1 \<le> p then n else 0, log @ [Binom_request n p])) \<rparr>"

section \<open>The spec's formula for MAD\<close>

text \<open>
  The arithmetic mean and the mean absolute deviation as the specification writes them:
  \<open>MAD = (1/n) * (\<Sum> i. |x\<^sub>i - mean|)\<close>.
\<close>

definition mean_spec :: "real list \<Rightarrow> real" where
  "mean_spec xs = (1 / real (length xs)) * (\<Sum>i<length xs. xs ! i)"

definition mad_spec :: "real list \<Rightarrow> real" where
  "mad_spec xs = (1 / real (length xs)) * (\<Sum>i<length xs. \<bar>xs ! i - mean_spec xs\<bar>)"

section \<open>The float64 range\<close>

text \<open>
  The definitions above compute with exact reals. The definitions from here on repeat the
  library operations and the notebook's functions with three features of the running
  program that the exact ones leave out: a finite result outside the float64 range becomes
  an infinity, \<open>np.sum\<close> adds in NumPy's pairwise order, and SciPy's samplers validate
  their arguments and raise \<open>ValueError\<close>. Rounding inside the range is still not
  modelled. A name ending in \<open>64\<close> is the range-aware counterpart of the name without it.

  \<open>f64_limit\<close> is the least magnitude that rounds to an infinity, \<open>2^1024 - 2^970\<close>
  (half an ulp above the largest finite double).
\<close>

definition f64_limit :: real where
  "f64_limit = 2 ^ 1024 - 2 ^ 970"

definition f64 :: "real \<Rightarrow> npfloat" where
  "f64 r = (if f64_limit \<le> r then PInf else if r \<le> - f64_limit then NInf else Fin r)"

fun clip :: "npfloat \<Rightarrow> npfloat" where
  "clip (Fin r) = f64 r"
| "clip x = x"

definition add64 :: "npfloat \<Rightarrow> npfloat \<Rightarrow> npfloat" where
  "add64 x y = clip (np_add x y)"

definition sub64 :: "npfloat \<Rightarrow> npfloat \<Rightarrow> npfloat" where
  "sub64 x y = add64 x (np_neg y)"

definition mul64 :: "npfloat \<Rightarrow> npfloat \<Rightarrow> npfloat" where
  "mul64 x y = clip (np_mul x y)"

definition div64 :: "npfloat \<Rightarrow> npfloat \<Rightarrow> npfloat" where
  "div64 x y = clip (np_div x y)"

definition square64 :: "npfloat \<Rightarrow> npfloat" where
  "square64 x = mul64 x x"

text \<open>
  NumPy's pairwise summation of a contiguous array. Fewer than 8 elements are added in
  order, starting from 0. Up to 128 elements are added into 8 accumulators, element
  \<open>i\<close> into accumulator \<open>i mod 8\<close>; the accumulators are then added as a balanced tree and
  the elements left over after the last full row of 8 are added in order. A longer array
  is split near the middle, at a multiple of 8, and the sums of the halves are added.
\<close>

definition lanes_reduce :: "npfloat list \<Rightarrow> npfloat" where
  "lanes_reduce r =
     add64 (add64 (add64 (r ! 0) (r ! 1)) (add64 (r ! 2) (r ! 3)))
           (add64 (add64 (r ! 4) (r ! 5)) (add64 (r ! 6) (r ! 7)))"

function sum_block :: "npfloat list \<Rightarrow> npfloat list \<Rightarrow> npfloat" where
  "sum_block r a =
     (if 8 \<le> length a
      then sum_block (map2 add64 r (take 8 a)) (drop 8 a)
      else foldl add64 (lanes_reduce r) a)"
  by pat_completeness auto
termination
  by (relation "measure (\<lambda>(r, a). length a)") auto

declare sum_block.simps [simp del]

function pairwise_sum :: "npfloat list \<Rightarrow> npfloat" where
  "pairwise_sum a =
     (if length a < 8 then foldl add64 (Fin 0) a
      else if length a \<le> 128 then sum_block (take 8 a) (drop 8 a)
      else add64 (pairwise_sum (take (length a div 2 - length a div 2 mod 8) a))
                 (pairwise_sum (drop (length a div 2 - length a div 2 mod 8) a)))"
  by pat_completeness auto
termination
  by (relation "measure length") auto

declare pairwise_sum.simps [simp del]

text \<open>The reductions and the notebook's \<open>mad\<close> and \<open>get_efficiency\<close>, as before.\<close>

definition sum64 :: "npfloat list \<Rightarrow> npfloat" where
  "sum64 data = pairwise_sum data"

definition mean64 :: "npfloat list \<Rightarrow> npfloat" where
  "mean64 data = div64 (sum64 data) (Fin (real (length data)))"

definition var64 :: "nat \<Rightarrow> npfloat list \<Rightarrow> npfloat" where
  "var64 ddof data =
     (let arrmean = mean64 data;
          x = map (\<lambda>v. square64 (sub64 v arrmean)) data
      in div64 (sum64 x) (Fin (real (length data - ddof))))"

definition tstd64 :: "npfloat list \<Rightarrow> npfloat" where
  "tstd64 a = np_sqrt (var64 1 a)"

definition mad64 :: "npfloat list \<Rightarrow> npfloat" where
  "mad64 data =
     (let mean = mean64 data;
          absolute_deviations = map (\<lambda>x. np_abs (sub64 x mean)) data
      in mean64 absolute_deviations)"

definition get_efficiency64 :: "npfloat list \<Rightarrow> npfloat" where
  "get_efficiency64 data = div64 (var64 0 data) (square64 (mean64 data))"

section \<open>The samplers with argument validation\<close>

text \<open>
  The generator supplies one standard normal variate, or one binomial variate, per draw.
  \<open>norm.rvs(loc, scale, size)\<close> raises \<open>ValueError\<close> for a negative scale, returns
  \<open>loc * ones(size)\<close> without drawing when the scale is 0, and otherwise returns
  \<open>standard_normal(size) * scale + loc\<close>. \<open>binom.rvs(n, p, size)\<close> raises \<open>ValueError\<close>
  unless \<open>n \<ge> 0\<close> and \<open>0 \<le> p \<le> 1\<close>.
\<close>

datatype py_error = ValueError

record 'g generator =
  standard_normal_draw :: "'g \<Rightarrow> real \<times> 'g"
  binomial_draw :: "int \<Rightarrow> real \<Rightarrow> 'g \<Rightarrow> int \<times> 'g"

definition norm_rvs64 ::
  "'g generator \<Rightarrow> real \<Rightarrow> real \<Rightarrow> nat \<Rightarrow> 'g \<Rightarrow> py_error + (npfloat list \<times> 'g)" where
  "norm_rvs64 rng loc scale sz g =
     (if \<not> 0 \<le> scale then Inl ValueError
      else if scale = 0 then Inr (replicate sz (mul64 (Fin loc) (Fin 1)), g)
      else (let (vals, g') = repeat_draw (standard_normal_draw rng) sz g
            in Inr (map (\<lambda>v. add64 (mul64 (Fin v) (Fin scale)) (Fin loc)) vals, g')))"

definition binom_rvs64 ::
  "'g generator \<Rightarrow> int \<Rightarrow> real \<Rightarrow> nat \<Rightarrow> 'g \<Rightarrow> py_error + (int list \<times> 'g)" where
  "binom_rvs64 rng n p sz g =
     (if \<not> (0 \<le> n \<and> 0 \<le> p \<and> p \<le> 1) then Inl ValueError
      else Inr (repeat_draw (binomial_draw rng n p) sz g))"

definition mix64 :: "int \<Rightarrow> npfloat \<Rightarrow> npfloat \<Rightarrow> npfloat" where
  "mix64 i x_norm x_spike =
     add64 (mul64 (Fin (of_int i)) x_norm) (mul64 (Fin (of_int (1 - i))) x_spike)"

definition two_norms64 ::
  "'g generator \<Rightarrow> nat \<Rightarrow> real \<Rightarrow> real \<Rightarrow> 'g \<Rightarrow> py_error + (npfloat list \<times> 'g)" where
  "two_norms64 rng num_samples' a p g =
     (let mean = 0;
          sigma_norm = 1;
          sigma_spike = 1 + a
      in case norm_rvs64 rng mean sigma_norm num_samples' g of
           Inl e \<Rightarrow> Inl e
         | Inr (X_norm, g1) \<Rightarrow>
      (case norm_rvs64 rng mean sigma_spike num_samples' g1 of
           Inl e \<Rightarrow> Inl e
         | Inr (X_spike, g2) \<Rightarrow>
      (case binom_rvs64 rng 1 (1 - p) num_samples' g2 of
           Inl e \<Rightarrow> Inl e
         | Inr (i, g3) \<Rightarrow>
             Inr (map (\<lambda>(i, x_norm, x_spike). mix64 i x_norm x_spike)
                      (zip i (zip X_norm X_spike)), g3))))"

text \<open>
  The list comprehension over \<open>range(num_sets_of_samples)\<close>: the calls are made one after
  the other, and the first exception ends the comprehension.
\<close>

fun repeat_call :: "('g \<Rightarrow> 'e + 'a \<times> 'g) \<Rightarrow> nat \<Rightarrow> 'g \<Rightarrow> 'e + 'a list \<times> 'g" where
  "repeat_call call 0 g = Inr ([], g)"
| "repeat_call call (Suc k) g =
     (case call g of
        Inl e \<Rightarrow> Inl e
      | Inr (x, g1) \<Rightarrow>
          (case repeat_call call k g1 of
             Inl e \<Rightarrow> Inl e
           | Inr (xs, g2) \<Rightarrow> Inr (x # xs, g2)))"

definition sets_of_samples64 ::
  "'g generator \<Rightarrow> real \<Rightarrow> real \<Rightarrow> 'g \<Rightarrow> py_error + (npfloat list list \<times> 'g)" where
  "sets_of_samples64 rng a p g =
     repeat_call (two_norms64 rng num_samples a p) num_sets_of_samples g"

definition get_efficiency_sample64 ::
  "'g generator \<Rightarrow> real \<Rightarrow> real \<Rightarrow> 'g \<Rightarrow> py_error + (npfloat \<times> 'g)" where
  "get_efficiency_sample64 rng a p g =
     (case sets_of_samples64 rng a p g of
        Inl e \<Rightarrow> Inl e
      | Inr (sets, g') \<Rightarrow>
          (let stds = map tstd64 sets;
               mads = map mad64 sets;
               std_efficiency = get_efficiency64 stds;
               mad_efficiency = get_efficiency64 mads
           in Inr (div64 std_efficiency mad_efficiency, g')))"

definition get_efficiency_sample_default64 :: "'g generator \<Rightarrow> 'g \<Rightarrow> py_error + (npfloat \<times> 'g)" where
  "get_efficiency_sample_default64 rng g = get_efficiency_sample64 rng 0 0 g"

text \<open>
  A deterministic generator for running the model: its normal variates alternate between
  1 and 2, and a binomial variate is \<open>n\<close> when \<open>p \<ge> 1\<close> and 0 otherwise.
\<close>

definition cycling_generator :: "nat generator" where
  "cycling_generator =
     \<lparr> standard_normal_draw = (\<lambda>k. (if even k then 1 else 2, Suc k)),
       binomial_draw = (\<lambda>n p k. (if 1 \<le> p then n else 0, Suc k)) \<rparr>"

section \<open>The spec's formulas for the estimator\<close>

text \<open>
  The sample standard deviation with denominator \<open>n - 1\<close>, the variance of an array, and
  the efficiency of an array, variance divided by the square of the mean, the division
  being the float64 division.
\<close>

definition std_spec :: "real list \<Rightarrow> real" where
  "std_spec xs =
     sqrt ((\<Sum>i<length xs. (xs ! i - mean_spec xs)\<^sup>2) / (real (length xs) - 1))"

definition variance_spec :: "real list \<Rightarrow> real" where
  "variance_spec xs = (1 / real (length xs)) * (\<Sum>i<length xs. (xs ! i - mean_spec xs)\<^sup>2)"

definition efficiency_spec :: "real list \<Rightarrow> npfloat" where
  "efficiency_spec xs = div64 (Fin (variance_spec xs)) (Fin ((mean_spec xs)\<^sup>2))"

text \<open>
  The draws of the default call, written from the generator alone. \<open>normal_draws rng g n\<close>
  are the next \<open>n\<close> standard normal variates from state \<open>g\<close>. One call of the mixture
  sampler with \<open>a = 0\<close>, \<open>p = 0\<close> and 1000 samples consumes 2000 normal variates and then
  1000 binomial variates with one trial and success probability 1. Batch \<open>k\<close> of
  \<open>default_batches\<close> holds the first 1000 normal variates of call \<open>k\<close>.
\<close>

definition normal_draws :: "'g generator \<Rightarrow> 'g \<Rightarrow> nat \<Rightarrow> real list" where
  "normal_draws rng g n =
     map (\<lambda>j. fst (standard_normal_draw rng (((\<lambda>s. snd (standard_normal_draw rng s)) ^^ j) g)))
         [0..<n]"

definition after_default_call :: "'g generator \<Rightarrow> 'g \<Rightarrow> 'g" where
  "after_default_call rng g =
     ((\<lambda>s. snd (binomial_draw rng 1 1 s)) ^^ 1000)
       (((\<lambda>s. snd (standard_normal_draw rng s)) ^^ 2000) g)"

definition default_batches :: "'g generator \<Rightarrow> 'g \<Rightarrow> real list list" where
  "default_batches rng g =
     map (\<lambda>k. normal_draws rng ((after_default_call rng ^^ k) g) 1000) [0..<10000]"

text \<open>
  The sum of the magnitudes of a list, and the values that are not negative in float64
  comparison when they are numbers: a non-negative real, \<open>+inf\<close> or \<open>nan\<close>.
\<close>

definition mass :: "real list \<Rightarrow> real" where
  "mass xs = sum_list (map abs xs)"


section \<open>Reductions over arrays of finite values\<close>

lemma np_sum_Fin: "np_sum (map Fin xs) = Fin (sum_list xs)"
  by (induction xs) simp_all

lemma np_mean_Fin:
  "xs \<noteq> [] \<Longrightarrow> np_mean (map Fin xs) = Fin (sum_list xs / real (length xs))"
  by (simp add: np_mean_def np_sum_Fin)

lemma np_mean_Nil: "np_mean [] = NaN"
  by (simp add: np_mean_def)

lemma map_abs_dev_Fin:
  "map (\<lambda>x. np_abs (np_sub x (Fin m))) (map Fin xs) = map Fin (map (\<lambda>x. \<bar>x - m\<bar>) xs)"
  by (simp add: np_sub_def)

lemma map_sq_dev_Fin:
  "map (\<lambda>v. np_square (np_sub v (Fin m))) (map Fin xs) =
   map Fin (map (\<lambda>x. (x - m) * (x - m)) xs)"
  by (simp add: np_sub_def np_square_def)

lemma mad_Fin:
  "xs \<noteq> [] \<Longrightarrow>
   mad (map Fin xs) =
     Fin (sum_list (map (\<lambda>x. \<bar>x - sum_list xs / real (length xs)\<bar>) xs) / real (length xs))"
  using np_mean_Fin [of "map (\<lambda>x. \<bar>x - sum_list xs / real (length xs)\<bar>) xs"]
  by (simp add: mad_def np_mean_Fin map_abs_dev_Fin del: map_map)

lemma mad_Nil: "mad [] = NaN"
  by (simp add: mad_def np_mean_Nil)

lemma np_var_Fin:
  "ddof < length xs \<Longrightarrow>
   np_var ddof (map Fin xs) =
     Fin (sum_list (map (\<lambda>x. (x - sum_list xs / real (length xs)) *
                              (x - sum_list xs / real (length xs))) xs)
          / real (length xs - ddof))"
  using np_sum_Fin [of "map (\<lambda>x. (x - sum_list xs / real (length xs)) *
                                  (x - sum_list xs / real (length xs))) xs"]
  by (cases "xs = []") (simp_all add: np_var_def np_mean_Fin map_sq_dev_Fin del: map_map)

lemma sum_list_sq_nonneg: "0 \<le> sum_list (map (\<lambda>x. (x - m) * (x - m)) (xs :: real list))"
  by (rule sum_list_nonneg) auto

lemma sum_list_abs_nonneg: "0 \<le> sum_list (map (\<lambda>x. \<bar>x - m\<bar>) (xs :: real list))"
  by (rule sum_list_nonneg) auto

lemma tstd_Fin:
  "2 \<le> length xs \<Longrightarrow>
   tstd (map Fin xs) =
     Fin (sqrt (sum_list (map (\<lambda>x. (x - sum_list xs / real (length xs)) *
                                    (x - sum_list xs / real (length xs))) xs)
          / real (length xs - 1)))"
  using sum_list_sq_nonneg [of "sum_list xs / real (length xs)" xs]
  by (simp add: tstd_def np_var_Fin not_less del: map_map)

lemma tstd_Nil: "tstd [] = NaN"
  by (simp add: tstd_def np_var_def np_mean_Nil)

lemma tstd_single: "tstd [Fin x] = NaN"
  by (simp add: tstd_def np_var_def np_mean_def np_sub_def np_square_def)

lemma sum_list_nth_lessThan: "sum_list xs = (\<Sum>i<length xs. (xs ! i :: real))"
  by (simp add: sum_list_sum_nth atLeast0LessThan)

lemma mean_spec_sum_list: "mean_spec xs = sum_list xs / real (length xs)"
  by (simp add: mean_spec_def sum_list_nth_lessThan)

lemma mad_spec_sum_list:
  "mad_spec xs = sum_list (map (\<lambda>x. \<bar>x - mean_spec xs\<bar>) xs) / real (length xs)"
  using sum_list_nth_lessThan [of "map (\<lambda>x. \<bar>x - mean_spec xs\<bar>) xs"]
  by (simp add: mad_spec_def)

section \<open>Repeated draws\<close>

lemma length_repeat_draw: "length (fst (repeat_draw draw k g)) = k"
  by (induction k arbitrary: g) (simp_all add: split_beta Let_def)


lemma repeat_draw_const:
  "(\<And>g. fst (draw g) = c) \<Longrightarrow> fst (repeat_draw draw k g) = replicate k c"
  by (induction k arbitrary: g) (simp_all add: split_beta Let_def)







lemma map_eq_replicate: "\<forall>x \<in> set xs. f x = c \<Longrightarrow> map f xs = replicate (length xs) c"
  by (induction xs) simp_all

lemma length_sets_of_samples: "length (fst (sets_of_samples rng a p g)) = num_sets_of_samples"
  by (simp add: sets_of_samples_def length_repeat_draw)

section \<open>Batches of one sample\<close>






section \<open>The mixture sampler\<close>

text \<open>
  Claim C1 says that the spike component of \<open>two_norms\<close> is drawn with the scale
  \<open>sqrt (1 + a)\<close>, as the docstring of the function does. The function passes
  \<open>sigma_spike = 1 + a\<close> as the scale. At \<open>num_samples = 1\<close>, \<open>a = 3\<close> and \<open>p = 1\<close> the
  recorded requests show the spike variate asked for with scale 4, where the claim gives
  \<open>sqrt (1 + 3) = 2\<close>; the underlying standard draw is 2, so the sample is 8 and not 4.
\<close>

theorem spike_scale_is_one_plus_a:
  "two_norms recording_sampler 1 3 1 [] =
     ([Fin 8], [Norm_request 0 1, Norm_request 0 4, Binom_request 1 0]) \<and>
   sqrt (1 + 3) = (2 :: real)"
  by (simp add: two_norms_def norm_rvs_def binom_rvs_def recording_sampler_def mix_def)

section \<open>The dispersion estimators\<close>



section \<open>The relative efficiency estimator: results\<close>

text \<open>
  Claim C9: in every call of the estimator the array of standard deviations and the array
  of mean absolute deviations have the same length, the number 10000 of sets drawn, and
  each holds one entry per drawn batch, in the order of the batches.
\<close>

theorem dispersion_arrays_length:
  "(case dispersion_arrays rng a p g of
      ((stds, mads), g') \<Rightarrow>
        length stds = num_sets_of_samples \<and>
        length mads = num_sets_of_samples \<and>
        length stds = length mads \<and>
        stds = map tstd (fst (sets_of_samples rng a p g)) \<and>
        mads = map mad (fst (sets_of_samples rng a p g))) \<and>
   length (fst (sets_of_samples rng a p g)) = num_sets_of_samples \<and>
   num_sets_of_samples = 10000"
  by (simp add: dispersion_arrays_def split_beta Let_def length_sets_of_samples)
     (simp add: num_sets_of_samples_def)



section \<open>Sums that stay in the float64 range\<close>

lemma f64_limit_pos: "0 < f64_limit"
  by (simp add: f64_limit_def)

lemma f64_Fin: "\<bar>r\<bar> < f64_limit \<Longrightarrow> f64 r = Fin r"
  by (auto simp: f64_def)

lemma add64_Fin: "\<bar>a + b\<bar> < f64_limit \<Longrightarrow> add64 (Fin a) (Fin b) = Fin (a + b)"
  by (simp add: add64_def f64_Fin)

lemma sub64_Fin: "\<bar>a - b\<bar> < f64_limit \<Longrightarrow> sub64 (Fin a) (Fin b) = Fin (a - b)"
  by (simp add: sub64_def add64_def f64_Fin)

lemma mul64_Fin: "\<bar>a * b\<bar> < f64_limit \<Longrightarrow> mul64 (Fin a) (Fin b) = Fin (a * b)"
  by (simp add: mul64_def f64_Fin)

lemma div64_Fin:
  "b \<noteq> 0 \<Longrightarrow> \<bar>a / b\<bar> < f64_limit \<Longrightarrow> div64 (Fin a) (Fin b) = Fin (a / b)"
  by (simp add: div64_def f64_Fin)

lemma mass_nonneg: "0 \<le> mass xs"
  unfolding mass_def by (rule sum_list_nonneg) auto

lemma mass_Nil: "mass [] = 0"
  by (simp add: mass_def)

lemma mass_Cons: "mass (x # xs) = \<bar>x\<bar> + mass xs"
  by (simp add: mass_def)

lemma mass_append: "mass (xs @ ys) = mass xs + mass ys"
  by (simp add: mass_def)

lemma mass_take_drop: "mass (take k xs) + mass (drop k xs) = mass xs"
  using mass_append [of "take k xs" "drop k xs"] by simp

lemma abs_sum_list_le_mass: "\<bar>sum_list xs\<bar> \<le> mass xs"
  by (induction xs) (auto simp: mass_Nil mass_Cons)

lemma foldl_add64_exact:
  "\<bar>s\<bar> + mass ys < f64_limit \<Longrightarrow>
   foldl add64 (Fin s) (map Fin ys) = Fin (s + sum_list ys)"
proof (induction ys arbitrary: s)
  case Nil
  then show ?case by simp
next
  case (Cons y ys)
  have m: "0 \<le> mass ys" by (rule mass_nonneg)
  have b: "\<bar>s + y\<bar> \<le> \<bar>s\<bar> + \<bar>y\<bar>" by simp
  from Cons.prems m b have "\<bar>s + y\<bar> < f64_limit"
    by (simp add: mass_Cons)
  then have step: "add64 (Fin s) (Fin y) = Fin (s + y)" by (rule add64_Fin)
  from Cons.prems b have "\<bar>s + y\<bar> + mass ys < f64_limit"
    by (simp add: mass_Cons)
  then have "foldl add64 (Fin (s + y)) (map Fin ys) = Fin (s + y + sum_list ys)"
    by (rule Cons.IH)
  with step show ?case by (simp add: add.assoc)
qed

lemma map2_add64_exact:
  "length rs = length ys \<Longrightarrow> mass rs + mass ys < f64_limit \<Longrightarrow>
   map2 add64 (map Fin rs) (map Fin ys) = map Fin (map2 (+) rs ys)"
proof (induction rs ys rule: list_induct2)
  case Nil
  then show ?case by simp
next
  case (Cons r rs y ys)
  have m: "0 \<le> mass rs" "0 \<le> mass ys" by (rule mass_nonneg)+
  have b: "\<bar>r + y\<bar> \<le> \<bar>r\<bar> + \<bar>y\<bar>" by simp
  from Cons.prems m b have "\<bar>r + y\<bar> < f64_limit"
    by (simp add: mass_Cons)
  then have step: "add64 (Fin r) (Fin y) = Fin (r + y)" by (rule add64_Fin)
  from Cons.prems have "mass rs + mass ys < f64_limit"
    by (simp add: mass_Cons)
  then have "map2 add64 (map Fin rs) (map Fin ys) = map Fin (map2 (+) rs ys)"
    by (rule Cons.IH)
  with step show ?case by simp
qed

lemma sum_list_map2_add:
  "length rs = length ys \<Longrightarrow> sum_list (map2 (+) rs ys) = sum_list rs + sum_list (ys :: real list)"
  by (induction rs ys rule: list_induct2) simp_all

lemma mass_map2_add:
  "length rs = length ys \<Longrightarrow> mass (map2 (+) rs ys) \<le> mass rs + mass ys"
  by (induction rs ys rule: list_induct2) (auto simp: mass_Nil mass_Cons)

lemma length_eight:
  "length (rs :: 'a list) = 8 \<Longrightarrow> \<exists>a b c d e f g h. rs = [a, b, c, d, e, f, g, h]"
  by (auto simp: length_Suc_conv numeral_eq_Suc)

lemma lanes_reduce_exact:
  assumes "length rs = 8" and "mass rs < f64_limit"
  shows "lanes_reduce (map Fin rs) = Fin (sum_list rs)"
proof -
  from assms(1) obtain a b c d e f g h where rs: "rs = [a, b, c, d, e, f, g, h]"
    using length_eight by blast
  define A B C D E F G H
    where "A = \<bar>a\<bar>" and "B = \<bar>b\<bar>" and "C = \<bar>c\<bar>" and "D = \<bar>d\<bar>"
      and "E = \<bar>e\<bar>" and "F = \<bar>f\<bar>" and "G = \<bar>g\<bar>" and "H = \<bar>h\<bar>"
  note defs = A_def B_def C_def D_def E_def F_def G_def H_def
  have nn: "0 \<le> A" "0 \<le> B" "0 \<le> C" "0 \<le> D" "0 \<le> E" "0 \<le> F" "0 \<le> G" "0 \<le> H"
    by (simp_all add: defs)
  have total: "A + B + C + D + E + F + G + H < f64_limit"
    using assms(2) by (simp add: rs mass_def defs)
  have t_ab: "\<bar>a + b\<bar> \<le> A + B" unfolding defs by (rule abs_triangle_ineq)
  have t_cd: "\<bar>c + d\<bar> \<le> C + D" unfolding defs by (rule abs_triangle_ineq)
  have t_ef: "\<bar>e + f\<bar> \<le> E + F" unfolding defs by (rule abs_triangle_ineq)
  have t_gh: "\<bar>g + h\<bar> \<le> G + H" unfolding defs by (rule abs_triangle_ineq)
  have t_abcd: "\<bar>a + b + (c + d)\<bar> \<le> A + B + C + D"
    using abs_triangle_ineq [of "a + b" "c + d"] t_ab t_cd by linarith
  have t_efgh: "\<bar>e + f + (g + h)\<bar> \<le> E + F + G + H"
    using abs_triangle_ineq [of "e + f" "g + h"] t_ef t_gh by linarith
  have t_all: "\<bar>a + b + (c + d) + (e + f + (g + h))\<bar> \<le> A + B + C + D + E + F + G + H"
    using abs_triangle_ineq [of "a + b + (c + d)" "e + f + (g + h)"] t_abcd t_efgh by linarith
  have ab: "add64 (Fin a) (Fin b) = Fin (a + b)"
    using t_ab total nn by (intro add64_Fin) linarith
  have cd: "add64 (Fin c) (Fin d) = Fin (c + d)"
    using t_cd total nn by (intro add64_Fin) linarith
  have ef: "add64 (Fin e) (Fin f) = Fin (e + f)"
    using t_ef total nn by (intro add64_Fin) linarith
  have gh: "add64 (Fin g) (Fin h) = Fin (g + h)"
    using t_gh total nn by (intro add64_Fin) linarith
  have abcd: "add64 (Fin (a + b)) (Fin (c + d)) = Fin (a + b + (c + d))"
    using t_abcd total nn by (intro add64_Fin) linarith
  have efgh: "add64 (Fin (e + f)) (Fin (g + h)) = Fin (e + f + (g + h))"
    using t_efgh total nn by (intro add64_Fin) linarith
  have all: "add64 (Fin (a + b + (c + d))) (Fin (e + f + (g + h))) =
             Fin (a + b + (c + d) + (e + f + (g + h)))"
    using t_all total by (intro add64_Fin) linarith
  show ?thesis
    by (simp add: lanes_reduce_def rs ab cd ef gh abcd efgh all)
qed

lemma sum_block_exact:
  "length rs = 8 \<Longrightarrow> mass rs + mass ys < f64_limit \<Longrightarrow>
   sum_block (map Fin rs) (map Fin ys) = Fin (sum_list rs + sum_list ys)"
proof (induction "length ys" arbitrary: rs ys rule: less_induct)
  case less
  show ?case
  proof (cases "8 \<le> length ys")
    case True
    let ?row = "take 8 ys" and ?rest = "drop 8 ys"
    let ?rs = "map2 (+) rs ?row"
    have len: "length rs = length ?row" using less.prems(1) True by simp
    have split: "mass ?row + mass ?rest = mass ys" by (rule mass_take_drop)
    have rest_nonneg: "0 \<le> mass ?rest" by (rule mass_nonneg)
    have row: "map2 add64 (map Fin rs) (map Fin ?row) = map Fin ?rs"
      using len less.prems(2) split rest_nonneg by (intro map2_add64_exact) linarith+
    have len': "length ?rs = 8" using len less.prems(1) by simp
    have bound: "mass ?rs + mass ?rest < f64_limit"
      using mass_map2_add [OF len] less.prems(2) split by linarith
    have shorter: "length ?rest < length ys" using True by simp
    have "sum_block (map Fin ?rs) (map Fin ?rest) = Fin (sum_list ?rs + sum_list ?rest)"
      using less.hyps [OF shorter len' bound] .
    moreover have "sum_list ?rs + sum_list ?rest = sum_list rs + sum_list ys"
      using sum_list_map2_add [OF len] sum_list_append [of ?row ?rest] by simp
    moreover have "sum_block (map Fin rs) (map Fin ys) =
                   sum_block (map2 add64 (map Fin rs) (take 8 (map Fin ys))) (drop 8 (map Fin ys))"
      using True by (subst sum_block.simps) simp
    ultimately show ?thesis by (simp add: row take_map drop_map)
  next
    case False
    have red: "lanes_reduce (map Fin rs) = Fin (sum_list rs)"
      using less.prems mass_nonneg [of ys] by (intro lanes_reduce_exact) linarith+
    have "\<bar>sum_list rs\<bar> + mass ys < f64_limit"
      using abs_sum_list_le_mass [of rs] less.prems(2) by linarith
    then have "foldl add64 (Fin (sum_list rs)) (map Fin ys) = Fin (sum_list rs + sum_list ys)"
      by (rule foldl_add64_exact)
    moreover have "sum_block (map Fin rs) (map Fin ys) =
                   foldl add64 (lanes_reduce (map Fin rs)) (map Fin ys)"
      using False by (subst sum_block.simps) simp
    ultimately show ?thesis by (simp add: red)
  qed
qed

lemma pairwise_sum_exact:
  "mass xs < f64_limit \<Longrightarrow> pairwise_sum (map Fin xs) = Fin (sum_list xs)"
proof (induction "length xs" arbitrary: xs rule: less_induct)
  case less
  consider (small) "length xs < 8" | (block) "8 \<le> length xs" "length xs \<le> 128"
    | (split) "128 < length xs" by linarith
  then show ?case
  proof cases
    case small
    have "foldl add64 (Fin 0) (map Fin xs) = Fin (0 + sum_list xs)"
      using less.prems by (intro foldl_add64_exact) simp
    moreover have "pairwise_sum (map Fin xs) = foldl add64 (Fin 0) (map Fin xs)"
      using small by (subst pairwise_sum.simps) simp
    ultimately show ?thesis by simp
  next
    case block
    have len: "length (take 8 xs) = 8" using block by simp
    have "mass (take 8 xs) + mass (drop 8 xs) < f64_limit"
      using less.prems by (simp add: mass_take_drop)
    from sum_block_exact [OF len this]
    have "sum_block (map Fin (take 8 xs)) (map Fin (drop 8 xs)) = Fin (sum_list xs)"
      using sum_list_append [of "take 8 xs" "drop 8 xs"] by simp
    moreover have "pairwise_sum (map Fin xs) =
                   sum_block (take 8 (map Fin xs)) (drop 8 (map Fin xs))"
      using block by (subst pairwise_sum.simps) simp
    ultimately show ?thesis by (simp add: take_map drop_map)
  next
    case split
    define n2 where "n2 = length xs div 2 - length xs div 2 mod 8"
    let ?l = "take n2 xs" and ?r = "drop n2 xs"
    have half: "64 \<le> length xs div 2" "length xs div 2 < length xs"
      using split by linarith+
    have m8: "length xs div 2 mod 8 < 8" by simp
    have pos: "0 < n2" unfolding n2_def using half(1) m8 by linarith
    have lt: "n2 < length xs" unfolding n2_def using half(2) by linarith
    have sp: "mass ?l + mass ?r = mass xs" by (rule mass_take_drop)
    have "length ?l = min (length xs) n2" by (rule length_take)
    then have len_l: "length ?l < length xs" using lt by linarith
    have "length ?r = length xs - n2" by (rule length_drop)
    then have len_r: "length ?r < length xs" using pos lt by linarith
    have mass_l: "mass ?l < f64_limit" using less.prems sp mass_nonneg [of ?r] by linarith
    have mass_r: "mass ?r < f64_limit" using less.prems sp mass_nonneg [of ?l] by linarith
    have l: "pairwise_sum (map Fin ?l) = Fin (sum_list ?l)"
      using len_l mass_l by (rule less.hyps)
    have r: "pairwise_sum (map Fin ?r) = Fin (sum_list ?r)"
      using len_r mass_r by (rule less.hyps)
    have "\<bar>sum_list ?l + sum_list ?r\<bar> \<le> \<bar>sum_list ?l\<bar> + \<bar>sum_list ?r\<bar>"
      by (rule abs_triangle_ineq)
    then have "\<bar>sum_list ?l + sum_list ?r\<bar> \<le> mass xs"
      using abs_sum_list_le_mass [of ?l] abs_sum_list_le_mass [of ?r] sp by argo
    then have "\<bar>sum_list ?l + sum_list ?r\<bar> < f64_limit"
      using less.prems by argo
    then have "add64 (Fin (sum_list ?l)) (Fin (sum_list ?r)) = Fin (sum_list ?l + sum_list ?r)"
      by (rule add64_Fin)
    moreover have "sum_list ?l + sum_list ?r = sum_list xs"
      using sum_list_append [of ?l ?r] by simp
    moreover have "pairwise_sum (map Fin xs) =
                   add64 (pairwise_sum (map Fin ?l)) (pairwise_sum (map Fin ?r))"
      using split by (subst pairwise_sum.simps) (simp add: take_map drop_map n2_def)
    ultimately show ?thesis by (simp only: l r)
  qed
qed

lemma sum64_exact: "mass xs < f64_limit \<Longrightarrow> sum64 (map Fin xs) = Fin (sum_list xs)"
  by (simp add: sum64_def pairwise_sum_exact)

section \<open>The reductions on bounded arrays\<close>

lemma mass_le: "\<forall>x \<in> set xs. \<bar>x\<bar> \<le> K \<Longrightarrow> mass xs \<le> real (length xs) * K"
  by (induction xs) (auto simp: mass_Nil mass_Cons algebra_simps)

lemma mass_map_le:
  "\<forall>x \<in> set xs. \<bar>f x\<bar> \<le> K \<Longrightarrow> mass (map f xs) \<le> real (length xs) * K"
  using mass_le [of "map f xs" K] by simp

lemma abs_div_count_le: "0 < n \<Longrightarrow> \<bar>s / real n\<bar> \<le> \<bar>s\<bar>"
proof -
  assume "0 < n"
  then have "1 \<le> real n" by simp
  then have "\<bar>s\<bar> / real n \<le> \<bar>s\<bar> / 1"
    by (intro divide_left_mono) simp_all
  then show ?thesis by simp
qed

lemma bound_nonneg: "xs \<noteq> [] \<Longrightarrow> \<forall>x \<in> set xs. \<bar>x\<bar> \<le> K \<Longrightarrow> 0 \<le> (K :: real)"
  by (cases xs) (auto intro: order_trans [OF abs_ge_zero])

lemma count_times_ge: "xs \<noteq> [] \<Longrightarrow> 0 \<le> (B :: real) \<Longrightarrow> B \<le> real (length xs) * B"
proof -
  assume "xs \<noteq> []" and B: "0 \<le> B"
  then have "1 \<le> real (length xs)" by (cases xs) simp_all
  then have "1 * B \<le> real (length xs) * B" using B by (intro mult_right_mono)
  then show ?thesis by simp
qed

lemma mean_abs_le:
  assumes "xs \<noteq> []" and "\<forall>x \<in> set xs. \<bar>x\<bar> \<le> K"
  shows "\<bar>sum_list xs / real (length xs)\<bar> \<le> K"
proof -
  have n: "0 < real (length xs)" using assms(1) by simp
  have "\<bar>sum_list xs\<bar> \<le> real (length xs) * K"
    using abs_sum_list_le_mass [of xs] mass_le [OF assms(2)] by linarith
  then have "\<bar>sum_list xs\<bar> / real (length xs) \<le> K"
    using n by (simp add: pos_divide_le_eq mult.commute)
  then show ?thesis by simp
qed

lemma mean64_exact:
  assumes "xs \<noteq> []" and "mass xs < f64_limit"
  shows "mean64 (map Fin xs) = Fin (sum_list xs / real (length xs))"
proof -
  have n: "0 < length xs" using assms(1) by simp
  have "\<bar>sum_list xs / real (length xs)\<bar> < f64_limit"
    using abs_div_count_le [OF n, of "sum_list xs"] abs_sum_list_le_mass [of xs] assms(2)
    by linarith
  then have "div64 (Fin (sum_list xs)) (Fin (real (length xs))) =
             Fin (sum_list xs / real (length xs))"
    using n by (intro div64_Fin) simp_all
  then show ?thesis
    by (simp add: mean64_def sum64_exact [OF assms(2)])
qed

lemma mad64_exact:
  assumes "xs \<noteq> []" and "\<forall>x \<in> set xs. \<bar>x\<bar> \<le> K"
      and "real (length xs) * (2 * K) < f64_limit"
  shows "mad64 (map Fin xs) =
           Fin (sum_list (map (\<lambda>x. \<bar>x - sum_list xs / real (length xs)\<bar>) xs)
                / real (length xs))"
proof -
  define m where "m = sum_list xs / real (length xs)"
  have K: "0 \<le> K" using assms(1,2) by (rule bound_nonneg)
  have n1: "1 \<le> real (length xs)" using assms(1) by (cases xs) simp_all
  have "real (length xs) * K \<le> real (length xs) * (2 * K)"
    using K by (intro mult_left_mono) simp_all
  then have mass_xs: "mass xs < f64_limit"
    using mass_le [OF assms(2)] assms(3) by linarith
  have mean: "mean64 (map Fin xs) = Fin m"
    unfolding m_def using assms(1) mass_xs by (rule mean64_exact)
  have m: "\<bar>m\<bar> \<le> K" unfolding m_def using assms(1,2) by (rule mean_abs_le)
  have twoK: "2 * K \<le> real (length xs) * (2 * K)"
    using assms(1) K by (intro count_times_ge) simp_all
  have dev: "\<forall>x \<in> set xs. \<bar>x - m\<bar> \<le> 2 * K"
  proof
    fix x assume "x \<in> set xs"
    with assms(2) have "\<bar>x\<bar> \<le> K" by blast
    with m show "\<bar>x - m\<bar> \<le> 2 * K" by linarith
  qed
  have devs: "map (\<lambda>x. np_abs (sub64 x (Fin m))) (map Fin xs) =
              map Fin (map (\<lambda>x. \<bar>x - m\<bar>) xs)"
  proof -
    have "np_abs (sub64 (Fin x) (Fin m)) = Fin \<bar>x - m\<bar>" if "x \<in> set xs" for x
    proof -
      from that dev have "\<bar>x - m\<bar> \<le> 2 * K" by blast
      with twoK assms(3) have "\<bar>x - m\<bar> < f64_limit" by linarith
      then show ?thesis by (simp add: sub64_Fin)
    qed
    then show ?thesis by simp
  qed
  have "\<forall>x \<in> set xs. \<bar>\<bar>x - m\<bar>\<bar> \<le> 2 * K" using dev by simp
  then have "mass (map (\<lambda>x. \<bar>x - m\<bar>) xs) \<le> real (length xs) * (2 * K)"
    by (rule mass_map_le)
  then have mass_dev: "mass (map (\<lambda>x. \<bar>x - m\<bar>) xs) < f64_limit"
    using assms(3) by linarith
  have "mean64 (map Fin (map (\<lambda>x. \<bar>x - m\<bar>) xs)) =
        Fin (sum_list (map (\<lambda>x. \<bar>x - m\<bar>) xs) / real (length (map (\<lambda>x. \<bar>x - m\<bar>) xs)))"
    using assms(1) mass_dev by (intro mean64_exact) simp_all
  then have "mean64 (map Fin (map (\<lambda>x. \<bar>x - m\<bar>) xs)) =
             Fin (sum_list (map (\<lambda>x. \<bar>x - m\<bar>) xs) / real (length xs))"
    by simp
  moreover have "mad64 (map Fin xs) = mean64 (map Fin (map (\<lambda>x. \<bar>x - m\<bar>) xs))"
    by (simp only: mad64_def Let_def mean devs)
  ultimately show ?thesis
    unfolding m_def by (simp only:)
qed

lemma var64_exact:
  assumes "ddof < length xs" and "\<forall>x \<in> set xs. \<bar>x\<bar> \<le> K"
      and "real (length xs) * (2 * K) < f64_limit"
      and "real (length xs) * (4 * K * K) < f64_limit"
  shows "var64 ddof (map Fin xs) =
           Fin (sum_list (map (\<lambda>x. (x - sum_list xs / real (length xs)) *
                                    (x - sum_list xs / real (length xs))) xs)
                / real (length xs - ddof))"
proof -
  define m where "m = sum_list xs / real (length xs)"
  have ne: "xs \<noteq> []" using assms(1) by auto
  have K: "0 \<le> K" using ne assms(2) by (rule bound_nonneg)
  have "real (length xs) * K \<le> real (length xs) * (2 * K)"
    using K by (intro mult_left_mono) simp_all
  then have mass_xs: "mass xs < f64_limit"
    using mass_le [OF assms(2)] assms(3) by linarith
  have mean: "mean64 (map Fin xs) = Fin m"
    unfolding m_def using ne mass_xs by (rule mean64_exact)
  have m: "\<bar>m\<bar> \<le> K" unfolding m_def using ne assms(2) by (rule mean_abs_le)
  have twoK: "2 * K \<le> real (length xs) * (2 * K)"
    using ne K by (intro count_times_ge) simp_all
  have fourK: "4 * K * K \<le> real (length xs) * (4 * K * K)"
    using ne K by (intro count_times_ge) simp_all
  have dev: "\<bar>x - m\<bar> \<le> 2 * K" if "x \<in> set xs" for x
  proof -
    from that assms(2) have "\<bar>x\<bar> \<le> K" by blast
    with m show ?thesis by linarith
  qed
  have sq: "\<bar>(x - m) * (x - m)\<bar> \<le> 4 * K * K" if "x \<in> set xs" for x
  proof -
    have "\<bar>x - m\<bar> * \<bar>x - m\<bar> \<le> (2 * K) * (2 * K)"
      using dev [OF that] by (intro mult_mono) simp_all
    then show ?thesis by (simp add: abs_mult)
  qed
  have sqs: "map (\<lambda>v. square64 (sub64 v (Fin m))) (map Fin xs) =
             map Fin (map (\<lambda>x. (x - m) * (x - m)) xs)"
  proof -
    have "square64 (sub64 (Fin x) (Fin m)) = Fin ((x - m) * (x - m))" if "x \<in> set xs" for x
    proof -
      from dev [OF that] twoK assms(3) have "\<bar>x - m\<bar> < f64_limit" by linarith
      then have s: "sub64 (Fin x) (Fin m) = Fin (x - m)" by (rule sub64_Fin)
      from sq [OF that] fourK assms(4) have "\<bar>(x - m) * (x - m)\<bar> < f64_limit" by linarith
      then show ?thesis by (simp add: square64_def s mul64_Fin)
    qed
    then show ?thesis by simp
  qed
  have "mass (map (\<lambda>x. (x - m) * (x - m)) xs) \<le> real (length xs) * (4 * K * K)"
    using sq by (intro mass_map_le) blast
  then have mass_sq: "mass (map (\<lambda>x. (x - m) * (x - m)) xs) < f64_limit"
    using assms(4) by linarith
  have sum: "sum64 (map Fin (map (\<lambda>x. (x - m) * (x - m)) xs)) =
             Fin (sum_list (map (\<lambda>x. (x - m) * (x - m)) xs))"
    using mass_sq by (rule sum64_exact)
  have cnt: "0 < length xs - ddof" using assms(1) by simp
  have "\<bar>sum_list (map (\<lambda>x. (x - m) * (x - m)) xs) / real (length xs - ddof)\<bar>
          \<le> \<bar>sum_list (map (\<lambda>x. (x - m) * (x - m)) xs)\<bar>"
    using cnt by (rule abs_div_count_le)
  also have "\<dots> \<le> mass (map (\<lambda>x. (x - m) * (x - m)) xs)"
    by (rule abs_sum_list_le_mass)
  also note mass_sq
  finally have "\<bar>sum_list (map (\<lambda>x. (x - m) * (x - m)) xs) / real (length xs - ddof)\<bar>
                  < f64_limit" .
  then have "div64 (Fin (sum_list (map (\<lambda>x. (x - m) * (x - m)) xs)))
                   (Fin (real (length xs - ddof))) =
             Fin (sum_list (map (\<lambda>x. (x - m) * (x - m)) xs) / real (length xs - ddof))"
    using cnt by (intro div64_Fin) simp_all
  moreover have "var64 ddof (map Fin xs) =
                 div64 (Fin (sum_list (map (\<lambda>x. (x - m) * (x - m)) xs)))
                       (Fin (real (length xs - ddof)))"
    by (simp only: var64_def Let_def mean sqs sum length_map)
  ultimately show ?thesis
    unfolding m_def by (simp only:)
qed

lemma tstd64_exact:
  assumes "2 \<le> length xs" and "\<forall>x \<in> set xs. \<bar>x\<bar> \<le> K"
      and "real (length xs) * (2 * K) < f64_limit"
      and "real (length xs) * (4 * K * K) < f64_limit"
  shows "tstd64 (map Fin xs) =
           Fin (sqrt (sum_list (map (\<lambda>x. (x - sum_list xs / real (length xs)) *
                                          (x - sum_list xs / real (length xs))) xs)
                / real (length xs - 1)))"
proof -
  have "1 < length xs" using assms(1) by simp
  from var64_exact [OF this assms(2,3,4)] sum_list_sq_nonneg [of "sum_list xs / real (length xs)" xs]
  show ?thesis
    by (simp add: tstd64_def not_less del: map_map)
qed

section \<open>Results that are never negative\<close>

















lemma safe_count:
  assumes "length xs < 2 ^ 64"
  shows "real (length xs) * (2 * 2 ^ 450) < f64_limit"
    and "real (length xs) * (4 * 2 ^ 450 * 2 ^ 450) < f64_limit"
proof -
  have n: "real (length xs) < 2 ^ 64" using assms by simp
  have "real (length xs) * (2 * 2 ^ 450) \<le> 2 ^ 64 * (2 * 2 ^ 450)"
    using n by (intro mult_right_mono) simp_all
  also have "\<dots> < f64_limit" by (simp add: f64_limit_def)
  finally show "real (length xs) * (2 * 2 ^ 450) < f64_limit" .
  have "real (length xs) * (4 * 2 ^ 450 * 2 ^ 450) \<le> 2 ^ 64 * (4 * 2 ^ 450 * 2 ^ 450)"
    using n by (intro mult_right_mono) simp_all
  also have "\<dots> < f64_limit" by (simp add: f64_limit_def)
  finally show "real (length xs) * (4 * 2 ^ 450 * 2 ^ 450) < f64_limit" .
qed

lemma sum_sq_nth:
  "sum_list (map (\<lambda>x. (x - m) * (x - m)) xs) = (\<Sum>i<length xs. (xs ! i - m :: real)\<^sup>2)"
  using sum_list_nth_lessThan [of "map (\<lambda>x. (x - m) * (x - m)) xs"]
  by (simp add: power2_eq_square)

lemma std_spec_sum_list:
  "xs \<noteq> [] \<Longrightarrow>
   std_spec xs = sqrt (sum_list (map (\<lambda>x. (x - sum_list xs / real (length xs)) *
                                          (x - sum_list xs / real (length xs))) xs)
                       / real (length xs - 1))"
proof -
  assume "xs \<noteq> []"
  then have "real (length xs - 1) = real (length xs) - 1"
    by (cases xs) simp_all
  then show ?thesis
    by (simp add: std_spec_def mean_spec_sum_list sum_sq_nth)
qed

lemma variance_spec_sum_list:
  "variance_spec xs = sum_list (map (\<lambda>x. (x - sum_list xs / real (length xs)) *
                                          (x - sum_list xs / real (length xs))) xs)
                      / real (length xs)"
  by (simp add: variance_spec_def mean_spec_sum_list sum_sq_nth)

lemma mad64_spec:
  assumes "xs \<noteq> []" and "length xs < 2 ^ 64" and "\<forall>x \<in> set xs. \<bar>x\<bar> \<le> 2 ^ 450"
  shows "mad64 (map Fin xs) = Fin (mad_spec xs)"
  using mad64_exact [OF assms(1,3) safe_count(1) [OF assms(2)]]
  by (simp add: mad_spec_sum_list mean_spec_sum_list)

lemma tstd64_spec:
  assumes "2 \<le> length xs" and "length xs < 2 ^ 64" and "\<forall>x \<in> set xs. \<bar>x\<bar> \<le> 2 ^ 450"
  shows "tstd64 (map Fin xs) = Fin (std_spec xs)"
proof -
  have ne: "xs \<noteq> []" using assms(1) by auto
  show ?thesis
    using tstd64_exact [OF assms(1,3) safe_count [OF assms(2)]]
    by (simp only: std_spec_sum_list [OF ne])
qed


lemma std_spec_nonneg: "0 \<le> std_spec xs"
proof (cases "xs = []")
  case True
  then show ?thesis by (simp add: std_spec_def)
next
  case False
  then have "0 \<le> real (length xs) - 1" by (cases xs) simp_all
  then show ?thesis
    unfolding std_spec_def
    by (intro real_sqrt_ge_zero divide_nonneg_nonneg sum_nonneg) simp_all
qed

lemma mad64_Nil: "mad64 [] = NaN"
  by (simp add: mad64_def mean64_def sum64_def pairwise_sum.simps div64_def add64_def)

lemma tstd64_Nil: "tstd64 [] = NaN"
  by (simp add: tstd64_def var64_def mean64_def sum64_def pairwise_sum.simps div64_def)

lemma tstd64_single: "\<bar>x\<bar> < f64_limit \<Longrightarrow> tstd64 [Fin x] = NaN"
  using f64_limit_pos
  by (simp add: tstd64_def var64_def mean64_def sum64_def pairwise_sum.simps div64_def
        add64_def sub64_def square64_def mul64_def f64_Fin)

text \<open>On such batches the exact and the range-aware functions agree.\<close>

lemma mad64_agrees:
  assumes "xs \<noteq> []" and "length xs < 2 ^ 64" and "\<forall>x \<in> set xs. \<bar>x\<bar> \<le> 2 ^ 450"
  shows "mad64 (map Fin xs) = mad (map Fin xs)"
  using mad64_exact [OF assms(1,3) safe_count(1) [OF assms(2)]] mad_Fin [OF assms(1)]
  by (simp only:)

lemma tstd64_agrees:
  assumes "2 \<le> length xs" and "length xs < 2 ^ 64" and "\<forall>x \<in> set xs. \<bar>x\<bar> \<le> 2 ^ 450"
  shows "tstd64 (map Fin xs) = tstd (map Fin xs)"
  using tstd64_exact [OF assms(1,3) safe_count [OF assms(2)]] tstd_Fin [OF assms(1)]
  by (simp only:)

section \<open>The dispersion estimators in the float64 range\<close>




text \<open>
  Claim C2 says that \<open>mad\<close> and \<open>tstd\<close> fail only on the empty batch and that the failure
  is signalled as an error and not as a value such as \<open>nan\<close>. On the empty batch both
  return the value \<open>nan\<close>, and \<open>tstd\<close> returns \<open>nan\<close> on a batch of one element as well, in
  exact arithmetic and in the float64 range alike.
\<close>

theorem empty_batch_returns_nan:
  "mad [] = NaN \<and> tstd [] = NaN \<and> tstd [Fin 5] = NaN \<and>
   mad64 [] = NaN \<and> tstd64 [] = NaN \<and> tstd64 [Fin 5] = NaN"
proof -
  have "\<bar>5\<bar> < f64_limit" by (simp add: f64_limit_def)
  then show ?thesis
    by (simp add: mad_Nil tstd_Nil tstd_single mad64_Nil tstd64_Nil tstd64_single)
qed

text \<open>
  Claim C2 as amended: \<open>mad\<close> and \<open>tstd\<close> are functions of the batch alone. On the empty
  batch each returns the value \<open>nan\<close>; \<open>tstd\<close> returns \<open>nan\<close> on every batch of one finite
  number too. On a non-empty batch of fewer than \<open>2^64\<close> real numbers of magnitude at most
  \<open>2^450\<close>, \<open>mad\<close> returns a finite number, and so does \<open>tstd\<close> when the batch has at least
  two elements.
\<close>

theorem dispersion64_nan:
  "mad64 [] = NaN \<and> tstd64 [] = NaN \<and>
   (\<bar>x\<bar> < f64_limit \<longrightarrow> tstd64 [Fin x] = NaN) \<and>
   (xs \<noteq> [] \<and> length xs < 2 ^ 64 \<and> (\<forall>x \<in> set xs. \<bar>x\<bar> \<le> 2 ^ 450) \<longrightarrow>
      (\<exists>r. mad64 (map Fin xs) = Fin r) \<and>
      (2 \<le> length xs \<longrightarrow> (\<exists>r. tstd64 (map Fin xs) = Fin r)))"
  by (simp add: mad64_Nil tstd64_Nil tstd64_single mad64_spec tstd64_spec)

theorem dispersion64_nan_witness:
  "\<bar>5\<bar> < f64_limit \<and> tstd64 [Fin 5] = NaN \<and>
   [2, 4] \<noteq> ([] :: real list) \<and> 2 \<le> length [2, 4 :: real] \<and>
   length [2, 4 :: real] < 2 ^ 64 \<and> \<bar>2 :: real\<bar> \<le> 2 ^ 450 \<and> \<bar>4 :: real\<bar> \<le> 2 ^ 450 \<and>
   (\<exists>r. mad64 (map Fin [2, 4]) = Fin r) \<and> (\<exists>r. tstd64 (map Fin [2, 4]) = Fin r)"
proof -
  have five: "\<bar>5\<bar> < f64_limit" by (simp add: f64_limit_def)
  have h: "[2, 4] \<noteq> ([] :: real list)" "2 \<le> length [2, 4 :: real]"
    "length [2, 4 :: real] < 2 ^ 64" "\<forall>x \<in> set [2, 4 :: real]. \<bar>x\<bar> \<le> 2 ^ 450"
    by simp_all
  have b: "\<bar>2 :: real\<bar> \<le> 2 ^ 450" "\<bar>4 :: real\<bar> \<le> 2 ^ 450" by simp_all
  from dispersion64_nan [of 5 "[2, 4]"] five h
  have "tstd64 [Fin 5] = NaN" "\<exists>r. mad64 (map Fin [2, 4]) = Fin r"
    "\<exists>r. tstd64 (map Fin [2, 4]) = Fin r"
    by blast+
  with five h(1,2,3) b show ?thesis by blast
qed

section \<open>The samplers in the float64 range\<close>

lemma funpow_snd_swap:
  "((\<lambda>s. snd (d s)) ^^ k) (snd (d s)) = snd (d (((\<lambda>s. snd (d s)) ^^ k) s))"
  using funpow_swap1 [of "\<lambda>s. snd (d s)" k s] by simp

lemma repeat_draw_funpow:
  "repeat_draw d n s =
     (map (\<lambda>j. fst (d (((\<lambda>s. snd (d s)) ^^ j) s))) [0..<n], ((\<lambda>s. snd (d s)) ^^ n) s)"
proof (induction n arbitrary: s)
  case 0
  then show ?case by simp
next
  case (Suc n)
  have "[0..<Suc n] = 0 # map Suc [0..<n]"
    by (simp add: upt_rec [of 0 "Suc n"] map_Suc_upt del: upt_Suc)
  then show ?case
    by (simp add: Suc.IH split_beta Let_def funpow_snd_swap comp_def del: upt_Suc)
qed

lemma normal_draws_repeat:
  "repeat_draw (standard_normal_draw rng) n s =
     (normal_draws rng s n, ((\<lambda>s. snd (standard_normal_draw rng s)) ^^ n) s)"
  by (simp add: repeat_draw_funpow normal_draws_def)

lemma length_normal_draws: "length (normal_draws rng s n) = n"
  by (simp add: normal_draws_def)

lemma normal_draws_bounded:
  "\<forall>g. \<bar>fst (standard_normal_draw rng g)\<bar> \<le> K \<Longrightarrow> \<forall>x \<in> set (normal_draws rng s n). \<bar>x\<bar> \<le> K"
  by (auto simp: normal_draws_def)

lemma f64_zero: "f64 0 = Fin 0"
  using f64_limit_pos by (simp add: f64_def)

lemma scale_shift_Fin:
  "\<bar>v * scale\<bar> < f64_limit \<Longrightarrow> add64 (mul64 (Fin v) (Fin scale)) (Fin 0) = Fin (v * scale)"
  by (simp add: mul64_Fin add64_Fin)

lemma norm_rvs64_finite:
  assumes "0 \<le> scale" and "\<forall>g. \<bar>fst (standard_normal_draw rng g)\<bar> * scale < f64_limit"
  shows "\<exists>ys g'. norm_rvs64 rng 0 scale n s = Inr (map Fin ys, g') \<and> length ys = n"
proof (cases "scale = 0")
  case True
  have "norm_rvs64 rng 0 scale n s = Inr (map Fin (replicate n 0), s)"
    using True by (simp add: norm_rvs64_def mul64_def f64_zero)
  then show ?thesis by (metis length_replicate)
next
  case False
  have "add64 (mul64 (Fin v) (Fin scale)) (Fin 0) = Fin (v * scale)"
    if "v \<in> set (normal_draws rng s n)" for v
  proof -
    from that obtain g where "v = fst (standard_normal_draw rng g)"
      by (auto simp: normal_draws_def)
    with assms have "\<bar>v * scale\<bar> < f64_limit" by (simp add: abs_mult)
    then show ?thesis by (rule scale_shift_Fin)
  qed
  then have "map (\<lambda>v. add64 (mul64 (Fin v) (Fin scale)) (Fin 0)) (normal_draws rng s n) =
             map Fin (map (\<lambda>v. v * scale) (normal_draws rng s n))"
    by simp
  then have "norm_rvs64 rng 0 scale n s =
             Inr (map Fin (map (\<lambda>v. v * scale) (normal_draws rng s n)),
                  ((\<lambda>s. snd (standard_normal_draw rng s)) ^^ n) s)"
    using False assms(1) by (simp add: norm_rvs64_def normal_draws_repeat del: map_map)
  then show ?thesis by (metis length_map length_normal_draws)
qed

lemma norm_rvs64_standard:
  assumes "\<forall>g. \<bar>fst (standard_normal_draw rng g)\<bar> < f64_limit"
  shows "norm_rvs64 rng 0 1 n s =
           Inr (map Fin (normal_draws rng s n), ((\<lambda>s. snd (standard_normal_draw rng s)) ^^ n) s)"
proof -
  have "add64 (mul64 (Fin v) (Fin 1)) (Fin 0) = Fin v"
    if "v \<in> set (normal_draws rng s n)" for v
  proof -
    from that obtain g where "v = fst (standard_normal_draw rng g)"
      by (auto simp: normal_draws_def)
    with assms have "\<bar>v * 1\<bar> < f64_limit" by simp
    from scale_shift_Fin [OF this] show ?thesis by simp
  qed
  then have "map (\<lambda>v. add64 (mul64 (Fin v) (Fin 1)) (Fin 0)) (normal_draws rng s n) =
             map Fin (normal_draws rng s n)"
    by simp
  then show ?thesis
    by (simp add: norm_rvs64_def normal_draws_repeat)
qed

lemma binom_rvs64_ones:
  assumes "\<forall>g. fst (binomial_draw rng 1 1 g) = 1"
  shows "binom_rvs64 rng 1 1 n s =
           Inr (replicate n 1, ((\<lambda>s. snd (binomial_draw rng 1 1 s)) ^^ n) s)"
proof -
  have "fst (repeat_draw (binomial_draw rng 1 1) n s) = replicate n 1"
    using assms by (intro repeat_draw_const) simp
  moreover have "snd (repeat_draw (binomial_draw rng 1 1) n s) =
                 ((\<lambda>s. snd (binomial_draw rng 1 1 s)) ^^ n) s"
    by (simp add: repeat_draw_funpow)
  ultimately have "repeat_draw (binomial_draw rng 1 1) n s =
                   (replicate n 1, ((\<lambda>s. snd (binomial_draw rng 1 1 s)) ^^ n) s)"
    by (metis prod.collapse)
  then show ?thesis by (simp add: binom_rvs64_def)
qed

lemma mix64_one: "\<bar>x\<bar> < f64_limit \<Longrightarrow> mix64 1 (Fin x) (Fin y) = Fin x"
  by (simp add: mix64_def mul64_def add64_def f64_Fin f64_zero)

lemma mix_all_ones:
  assumes "length xs = n" and "length ys = n" and "\<forall>x \<in> set xs. \<bar>x\<bar> < f64_limit"
  shows "map (\<lambda>(i, x_norm, x_spike). mix64 i x_norm x_spike)
             (zip (replicate n 1) (zip (map Fin xs) (map Fin ys))) = map Fin xs"
  using assms by (intro nth_equalityI) (simp_all add: mix64_one)

lemma two_norms64_p_zero_eq:
  assumes ones: "\<forall>g. fst (binomial_draw rng 1 1 g) = 1"
      and fin: "\<forall>g. \<bar>fst (standard_normal_draw rng g)\<bar> < f64_limit"
      and a: "- 1 \<le> a"
      and spike: "\<forall>g. \<bar>fst (standard_normal_draw rng g)\<bar> * (1 + a) < f64_limit"
  shows "\<exists>g3. two_norms64 rng n a 0 s = Inr (map Fin (normal_draws rng s n), g3)"
proof -
  let ?g1 = "((\<lambda>s. snd (standard_normal_draw rng s)) ^^ n) s"
  have xn: "norm_rvs64 rng 0 1 n s = Inr (map Fin (normal_draws rng s n), ?g1)"
    using fin by (rule norm_rvs64_standard)
  from a have "0 \<le> 1 + a" by simp
  from norm_rvs64_finite [OF this spike, of n ?g1]
  obtain ys g2 where xs: "norm_rvs64 rng 0 (1 + a) n ?g1 = Inr (map Fin ys, g2)"
    and len: "length ys = n" by blast
  have i: "binom_rvs64 rng 1 1 n g2 =
           Inr (replicate n 1, ((\<lambda>s. snd (binomial_draw rng 1 1 s)) ^^ n) g2)"
    using ones by (rule binom_rvs64_ones)
  have bounded: "\<forall>x \<in> set (normal_draws rng s n). \<bar>x\<bar> < f64_limit"
    using fin by (auto simp: normal_draws_def)
  have "map (\<lambda>(i, x_norm, x_spike). mix64 i x_norm x_spike)
            (zip (replicate n 1) (zip (map Fin (normal_draws rng s n)) (map Fin ys))) =
        map Fin (normal_draws rng s n)"
    using length_normal_draws len bounded by (rule mix_all_ones)
  then have "two_norms64 rng n a 0 s =
             Inr (map Fin (normal_draws rng s n), ((\<lambda>s. snd (binomial_draw rng 1 1 s)) ^^ n) g2)"
    by (simp add: two_norms64_def xn xs i)
  then show ?thesis by blast
qed

section \<open>The mixture sampler in the float64 range\<close>

text \<open>
  Claim C10 says that for every \<open>N\<close> and \<open>a\<close>, when \<open>p = 0\<close> the sample returned by
  \<open>two_norms\<close> equals the standard normal draw \<open>X_norm\<close> and is the same for every \<open>a\<close>. At
  \<open>a = 2^1023\<close>, with a standard draw of 2 for the spike component, the spike variate
  \<open>(1 + a) * 2\<close> overflows to \<open>inf\<close> and \<open>0 * inf = nan\<close>: the sample is \<open>[nan]\<close> while \<open>X_norm\<close>
  is \<open>[1]\<close>, which is also the sample at \<open>a = 0\<close>. At \<open>a = -2\<close> the scale is negative and the
  call raises \<open>ValueError\<close>.
\<close>

theorem two_norms64_overflow_at_p_zero:
  "two_norms64 cycling_generator 1 (2 ^ 1023) 0 0 = Inr ([NaN], 3) \<and>
   norm_rvs64 cycling_generator 0 1 1 0 = Inr ([Fin 1], 1) \<and>
   two_norms64 cycling_generator 1 0 0 0 = Inr ([Fin 1], 3) \<and>
   two_norms64 cycling_generator 1 (- 2) 0 0 = Inl ValueError"
  by (simp add: two_norms64_def norm_rvs64_def binom_rvs64_def cycling_generator_def mix64_def
        mul64_def add64_def scale_inf_def f64_def f64_limit_def)

lemma below_limit: "x \<le> 2 ^ 1023 \<Longrightarrow> x < f64_limit"
proof -
  assume "x \<le> 2 ^ 1023"
  also have "(2 :: real) ^ 1023 < f64_limit" by (simp add: f64_limit_def)
  finally show ?thesis .
qed

text \<open>
  Claim C10 as amended: let the binomial sampler return 1 for one trial with success
  probability 1 and let the normal variates be finite. For every \<open>N\<close> and every two values
  \<open>a\<close>, \<open>a'\<close> that are at least \<open>-1\<close> and for which no spike variate overflows (the magnitude
  of a standard draw times \<open>1 + a\<close> stays at most \<open>2^1023\<close>): when \<open>p = 0\<close> every indicator
  drawn is 1, the sample returned equals \<open>X_norm\<close> element by element, and from the same
  generator state the sample is the same for \<open>a\<close> and \<open>a'\<close>.
\<close>

theorem two_norms64_p_zero:
  assumes "\<forall>g. fst (binomial_draw rng 1 1 g) = 1"
      and "\<forall>g. \<bar>fst (standard_normal_draw rng g)\<bar> < f64_limit"
      and "- 1 \<le> a" and "\<forall>g. \<bar>fst (standard_normal_draw rng g)\<bar> * (1 + a) \<le> 2 ^ 1023"
      and "- 1 \<le> a'" and "\<forall>g. \<bar>fst (standard_normal_draw rng g)\<bar> * (1 + a') \<le> 2 ^ 1023"
  shows "(\<forall>g'. \<exists>g''. binom_rvs64 rng 1 (1 - 0) N g' = Inr (replicate N 1, g'')) \<and>
         (\<exists>X_norm g1 g3 g3'.
            norm_rvs64 rng 0 1 N g = Inr (X_norm, g1) \<and>
            two_norms64 rng N a 0 g = Inr (X_norm, g3) \<and>
            two_norms64 rng N a' 0 g = Inr (X_norm, g3'))"
proof (intro conjI allI)
  fix g'
  show "\<exists>g''. binom_rvs64 rng 1 (1 - 0) N g' = Inr (replicate N 1, g'')"
    using binom_rvs64_ones [OF assms(1), of N g'] by simp
next
  have s: "\<forall>g. \<bar>fst (standard_normal_draw rng g)\<bar> * (1 + a) < f64_limit"
    using assms(4) by (blast intro: below_limit)
  have s': "\<forall>g. \<bar>fst (standard_normal_draw rng g)\<bar> * (1 + a') < f64_limit"
    using assms(6) by (blast intro: below_limit)
  from two_norms64_p_zero_eq [OF assms(1,2,3) s, of N g]
  obtain g3 where 1: "two_norms64 rng N a 0 g = Inr (map Fin (normal_draws rng g N), g3)" ..
  from two_norms64_p_zero_eq [OF assms(1,2,5) s', of N g]
  obtain g3' where 2: "two_norms64 rng N a' 0 g = Inr (map Fin (normal_draws rng g N), g3')" ..
  from norm_rvs64_standard [OF assms(2), of N g] 1 2
  show "\<exists>X_norm g1 g3 g3'.
            norm_rvs64 rng 0 1 N g = Inr (X_norm, g1) \<and>
            two_norms64 rng N a 0 g = Inr (X_norm, g3) \<and>
            two_norms64 rng N a' 0 g = Inr (X_norm, g3')"
    by blast
qed

theorem two_norms64_p_zero_witness:
  "(\<forall>g. fst (binomial_draw cycling_generator 1 1 g) = 1) \<and>
   (\<forall>g. \<bar>fst (standard_normal_draw cycling_generator g)\<bar> < f64_limit) \<and>
   - 1 \<le> (3 :: real) \<and>
   (\<forall>g. \<bar>fst (standard_normal_draw cycling_generator g)\<bar> * (1 + 3) \<le> 2 ^ 1023) \<and>
   - 1 \<le> (7 :: real) \<and>
   (\<forall>g. \<bar>fst (standard_normal_draw cycling_generator g)\<bar> * (1 + 7) \<le> 2 ^ 1023) \<and>
   (\<exists>X_norm g1 g3 g3'.
      norm_rvs64 cycling_generator 0 1 2 0 = Inr (X_norm, g1) \<and>
      two_norms64 cycling_generator 2 3 0 0 = Inr (X_norm, g3) \<and>
      two_norms64 cycling_generator 2 7 0 0 = Inr (X_norm, g3'))"
proof -
  have h1: "\<forall>g. fst (binomial_draw cycling_generator 1 1 g) = 1"
    by (simp add: cycling_generator_def)
  have h2: "\<forall>g. \<bar>fst (standard_normal_draw cycling_generator g)\<bar> < f64_limit"
    by (simp add: cycling_generator_def f64_limit_def)
  have h3: "- 1 \<le> (3 :: real)" "- 1 \<le> (7 :: real)" by simp_all
  have h4: "\<forall>g. \<bar>fst (standard_normal_draw cycling_generator g)\<bar> * (1 + 3) \<le> 2 ^ 1023"
    by (simp add: cycling_generator_def)
  have h5: "\<forall>g. \<bar>fst (standard_normal_draw cycling_generator g)\<bar> * (1 + 7) \<le> 2 ^ 1023"
    by (simp add: cycling_generator_def)
  from two_norms64_p_zero [OF h1 h2 h3(1) h4 h3(2) h5, of 2 0] h1 h2 h3 h4 h5
  show ?thesis by blast
qed

section \<open>The default call of the estimator\<close>

lemma repeat_call_funpow:
  "repeat_call (\<lambda>s. Inr (f s, h s)) n s =
     Inr (map (\<lambda>k. f ((h ^^ k) s)) [0..<n], (h ^^ n) s)"
proof (induction n arbitrary: s)
  case 0
  then show ?case by simp
next
  case (Suc n)
  have "[0..<Suc n] = 0 # map Suc [0..<n]"
    by (simp add: upt_rec [of 0 "Suc n"] map_Suc_upt del: upt_Suc)
  then show ?case
    by (simp add: Suc.IH funpow_swap1 comp_def del: upt_Suc)
qed

lemma two_norms64_default_eq:
  assumes ones: "\<forall>g. fst (binomial_draw rng 1 1 g) = 1"
      and fin: "\<forall>g. \<bar>fst (standard_normal_draw rng g)\<bar> < f64_limit"
  shows "two_norms64 rng n 0 0 s =
           Inr (map Fin (normal_draws rng s n),
                ((\<lambda>s. snd (binomial_draw rng 1 1 s)) ^^ n)
                  (((\<lambda>s. snd (standard_normal_draw rng s)) ^^ (n + n)) s))"
proof -
  let ?adv = "\<lambda>s. snd (standard_normal_draw rng s)"
  have xn: "norm_rvs64 rng 0 1 n s = Inr (map Fin (normal_draws rng s n), (?adv ^^ n) s)"
    using fin by (rule norm_rvs64_standard)
  have xs: "norm_rvs64 rng 0 1 n ((?adv ^^ n) s) =
            Inr (map Fin (normal_draws rng ((?adv ^^ n) s) n), (?adv ^^ (n + n)) s)"
    using norm_rvs64_standard [OF fin, of n "(?adv ^^ n) s"] by (simp add: funpow_add)
  have i: "binom_rvs64 rng 1 1 n ((?adv ^^ (n + n)) s) =
           Inr (replicate n 1,
                ((\<lambda>s. snd (binomial_draw rng 1 1 s)) ^^ n) ((?adv ^^ (n + n)) s))"
    using ones by (rule binom_rvs64_ones)
  have bounded: "\<forall>x \<in> set (normal_draws rng s n). \<bar>x\<bar> < f64_limit"
    using fin by (auto simp: normal_draws_def)
  have "map (\<lambda>(i, x_norm, x_spike). mix64 i x_norm x_spike)
            (zip (replicate n 1)
                 (zip (map Fin (normal_draws rng s n))
                      (map Fin (normal_draws rng ((?adv ^^ n) s) n)))) =
        map Fin (normal_draws rng s n)"
    using length_normal_draws length_normal_draws bounded by (rule mix_all_ones)
  then show ?thesis
    by (simp add: two_norms64_def xn xs i)
qed

lemma draw_bound_finite:
  "\<forall>g. \<bar>fst (standard_normal_draw rng g)\<bar> \<le> 2 ^ 450 \<Longrightarrow>
   \<forall>g. \<bar>fst (standard_normal_draw rng g)\<bar> < f64_limit"
proof
  fix g
  assume "\<forall>g. \<bar>fst (standard_normal_draw rng g)\<bar> \<le> 2 ^ 450"
  then have "\<bar>fst (standard_normal_draw rng g)\<bar> \<le> 2 ^ 450" ..
  also have "(2 :: real) ^ 450 < f64_limit" by (simp add: f64_limit_def)
  finally show "\<bar>fst (standard_normal_draw rng g)\<bar> < f64_limit" .
qed

lemma sets_of_samples64_default:
  assumes "\<forall>g. fst (binomial_draw rng 1 1 g) = 1"
      and "\<forall>g. \<bar>fst (standard_normal_draw rng g)\<bar> \<le> 2 ^ 450"
  shows "sets_of_samples64 rng 0 0 g =
           Inr (map (map Fin) (default_batches rng g), (after_default_call rng ^^ 10000) g)"
proof -
  have fin: "\<forall>g. \<bar>fst (standard_normal_draw rng g)\<bar> < f64_limit"
    using assms(2) by (rule draw_bound_finite)
  have call: "two_norms64 rng 1000 0 0 s =
              Inr (map Fin (normal_draws rng s 1000), after_default_call rng s)" for s
    using two_norms64_default_eq [OF assms(1) fin, of 1000 s]
    by (simp add: after_default_call_def)
  have "two_norms64 rng 1000 0 0 =
        (\<lambda>s. Inr (map Fin (normal_draws rng s 1000), after_default_call rng s))"
    by (rule ext) (rule call)
  then have "repeat_call (two_norms64 rng 1000 0 0) 10000 g =
        Inr (map (\<lambda>k. map Fin (normal_draws rng ((after_default_call rng ^^ k) g) 1000))
                 [0..<10000],
             (after_default_call rng ^^ 10000) g)"
    by (simp only: repeat_call_funpow)
  then show ?thesis
    by (simp only: sets_of_samples64_def num_samples_def num_sets_of_samples_def
          default_batches_def map_map comp_def)
qed

lemma default_batches_shape:
  "length (default_batches rng g) = 10000"
  "\<forall>b \<in> set (default_batches rng g). length b = 1000"
  by (auto simp: default_batches_def length_normal_draws simp del: upt_Suc)

lemma default_batches_bounded:
  assumes "\<forall>g. \<bar>fst (standard_normal_draw rng g)\<bar> \<le> K"
  shows "\<forall>b \<in> set (default_batches rng g). \<forall>x \<in> set b. \<bar>x\<bar> \<le> K"
  using normal_draws_bounded [OF assms]
  by (auto simp: default_batches_def simp del: upt_Suc)

lemma mad_spec_le:
  assumes "xs \<noteq> []" and "\<forall>x \<in> set xs. \<bar>x\<bar> \<le> K"
  shows "\<bar>mad_spec xs\<bar> \<le> 2 * K"
proof -
  define m where "m = mean_spec xs"
  have m: "\<bar>m\<bar> \<le> K"
    unfolding m_def mean_spec_sum_list using assms by (rule mean_abs_le)
  have "\<forall>x \<in> set xs. \<bar>\<bar>x - m\<bar>\<bar> \<le> 2 * K"
  proof
    fix x assume "x \<in> set xs"
    with assms(2) have "\<bar>x\<bar> \<le> K" by blast
    with m show "\<bar>\<bar>x - m\<bar>\<bar> \<le> 2 * K" by linarith
  qed
  then have "\<forall>x \<in> set (map (\<lambda>x. \<bar>x - m\<bar>) xs). \<bar>x\<bar> \<le> 2 * K" by simp
  moreover have "map (\<lambda>x. \<bar>x - m\<bar>) xs \<noteq> []" using assms(1) by simp
  ultimately have "\<bar>sum_list (map (\<lambda>x. \<bar>x - m\<bar>) xs) / real (length (map (\<lambda>x. \<bar>x - m\<bar>) xs))\<bar>
                     \<le> 2 * K"
    by (intro mean_abs_le)
  then show ?thesis by (simp add: mad_spec_sum_list m_def)
qed

lemma std_spec_le:
  assumes "2 \<le> length xs" and "\<forall>x \<in> set xs. \<bar>x\<bar> \<le> K"
  shows "\<bar>std_spec xs\<bar> \<le> 4 * K"
proof -
  define m where "m = sum_list xs / real (length xs)"
  define S where "S = sum_list (map (\<lambda>x. (x - m) * (x - m)) xs)"
  have ne: "xs \<noteq> []" using assms(1) by auto
  have K: "0 \<le> K" using ne assms(2) by (rule bound_nonneg)
  have KK: "0 \<le> 4 * K * K" using K by simp
  have m: "\<bar>m\<bar> \<le> K" unfolding m_def using ne assms(2) by (rule mean_abs_le)
  have sq: "\<forall>x \<in> set xs. \<bar>(x - m) * (x - m)\<bar> \<le> 4 * K * K"
  proof
    fix x assume "x \<in> set xs"
    with assms(2) have "\<bar>x\<bar> \<le> K" by blast
    with m have "\<bar>x - m\<bar> \<le> 2 * K" by linarith
    then have "\<bar>x - m\<bar> * \<bar>x - m\<bar> \<le> (2 * K) * (2 * K)"
      by (intro mult_mono) simp_all
    then show "\<bar>(x - m) * (x - m)\<bar> \<le> 4 * K * K" by (simp add: abs_mult)
  qed
  have "S \<le> mass (map (\<lambda>x. (x - m) * (x - m)) xs)"
    unfolding S_def using abs_sum_list_le_mass [of "map (\<lambda>x. (x - m) * (x - m)) xs"] by linarith
  also have "\<dots> \<le> real (length xs) * (4 * K * K)"
    using sq by (rule mass_map_le)
  also have "\<dots> \<le> (4 * real (length xs - 1)) * (4 * K * K)"
  proof (rule mult_right_mono [OF _ KK])
    have "real (length xs - 1) = real (length xs) - 1" using ne by (cases xs) simp_all
    moreover have "2 \<le> real (length xs)" using assms(1) by simp
    ultimately show "real (length xs) \<le> 4 * real (length xs - 1)" by linarith
  qed
  finally have S: "S \<le> (4 * K)\<^sup>2 * real (length xs - 1)"
    by (simp add: power2_eq_square algebra_simps)
  have pos: "0 < real (length xs - 1)" using assms(1) by simp
  have "S / real (length xs - 1) \<le> (4 * K)\<^sup>2"
    using S pos by (simp add: pos_divide_le_eq)
  then have "sqrt (S / real (length xs - 1)) \<le> 4 * K"
    using K by (intro real_le_lsqrt) simp_all
  moreover have "0 \<le> std_spec xs" by (rule std_spec_nonneg)
  moreover have "std_spec xs = sqrt (S / real (length xs - 1))"
    unfolding S_def m_def by (rule std_spec_sum_list [OF ne])
  ultimately show ?thesis by simp
qed

lemma get_efficiency64_exact:
  assumes "ds \<noteq> []" and "\<forall>d \<in> set ds. \<bar>d\<bar> \<le> K"
      and "real (length ds) * (2 * K) < f64_limit"
      and "real (length ds) * (4 * K * K) < f64_limit"
  shows "get_efficiency64 (map Fin ds) = efficiency_spec ds"
proof -
  have n: "0 < length ds" using assms(1) by simp
  have K: "0 \<le> K" using assms(1,2) by (rule bound_nonneg)
  have "real (length ds) * K \<le> real (length ds) * (2 * K)"
    using K by (intro mult_left_mono) simp_all
  then have "mass ds < f64_limit"
    using mass_le [OF assms(2)] assms(3) by linarith
  with assms(1) have mean: "mean64 (map Fin ds) = Fin (mean_spec ds)"
    by (simp add: mean64_exact mean_spec_sum_list)
  have var: "var64 0 (map Fin ds) = Fin (variance_spec ds)"
    using var64_exact [OF n assms(2,3,4)] by (simp add: variance_spec_sum_list)
  have "\<bar>mean_spec ds\<bar> \<le> K"
    unfolding mean_spec_sum_list using assms(1,2) by (rule mean_abs_le)
  then have "\<bar>mean_spec ds\<bar> * \<bar>mean_spec ds\<bar> \<le> K * K"
    by (intro mult_mono) simp_all
  then have "\<bar>mean_spec ds * mean_spec ds\<bar> \<le> K * K"
    by (simp only: abs_mult)
  also have "K * K \<le> 4 * K * K"
    using mult_nonneg_nonneg [OF K K] by linarith
  also have "4 * K * K \<le> real (length ds) * (4 * K * K)"
    using assms(1) mult_nonneg_nonneg [OF K K] by (intro count_times_ge) simp_all
  also note assms(4)
  finally have "\<bar>mean_spec ds * mean_spec ds\<bar> < f64_limit" .
  then have sq: "square64 (Fin (mean_spec ds)) = Fin ((mean_spec ds)\<^sup>2)"
    by (simp add: square64_def mul64_Fin power2_eq_square)
  show ?thesis
    by (simp only: get_efficiency64_def mean var sq efficiency_spec_def)
qed

lemma safe_count_452:
  assumes "length xs < 2 ^ 64"
  shows "real (length xs) * (2 * 2 ^ 452) < f64_limit"
    and "real (length xs) * (4 * 2 ^ 452 * 2 ^ 452) < f64_limit"
proof -
  have n: "real (length xs) < 2 ^ 64" using assms by simp
  have "real (length xs) * (2 * 2 ^ 452) \<le> 2 ^ 64 * (2 * 2 ^ 452)"
    using n by (intro mult_right_mono) simp_all
  also have "\<dots> < f64_limit" by (simp add: f64_limit_def)
  finally show "real (length xs) * (2 * 2 ^ 452) < f64_limit" .
  have "real (length xs) * (4 * 2 ^ 452 * 2 ^ 452) \<le> 2 ^ 64 * (4 * 2 ^ 452 * 2 ^ 452)"
    using n by (intro mult_right_mono) simp_all
  also have "\<dots> < f64_limit" by (simp add: f64_limit_def)
  finally show "real (length xs) * (4 * 2 ^ 452 * 2 ^ 452) < f64_limit" .
qed

lemma dispersion_arrays_default:
  assumes "\<forall>g. \<bar>fst (standard_normal_draw rng g)\<bar> \<le> 2 ^ 450"
  shows "map tstd64 (map (map Fin) (default_batches rng g)) =
           map Fin (map std_spec (default_batches rng g))"
    and "map mad64 (map (map Fin) (default_batches rng g)) =
           map Fin (map mad_spec (default_batches rng g))"
proof -
  have shape: "length b = 1000" and bound: "\<forall>x \<in> set b. \<bar>x\<bar> \<le> 2 ^ 450"
    if "b \<in> set (default_batches rng g)" for b
    using that default_batches_shape(2) [of rng g] default_batches_bounded [OF assms, of g]
    by blast+
  have "tstd64 (map Fin b) = Fin (std_spec b)" if "b \<in> set (default_batches rng g)" for b
    using shape [OF that] bound [OF that] by (intro tstd64_spec) simp_all
  then show "map tstd64 (map (map Fin) (default_batches rng g)) =
             map Fin (map std_spec (default_batches rng g))"
    by simp
  have "mad64 (map Fin b) = Fin (mad_spec b)" if "b \<in> set (default_batches rng g)" for b
    using shape [OF that] bound [OF that] by (intro mad64_spec) auto
  then show "map mad64 (map (map Fin) (default_batches rng g)) =
             map Fin (map mad_spec (default_batches rng g))"
    by simp
qed

lemma efficiency_default:
  assumes "\<forall>g. \<bar>fst (standard_normal_draw rng g)\<bar> \<le> 2 ^ 450"
  shows "get_efficiency64 (map Fin (map std_spec (default_batches rng g))) =
           efficiency_spec (map std_spec (default_batches rng g))"
    and "get_efficiency64 (map Fin (map mad_spec (default_batches rng g))) =
           efficiency_spec (map mad_spec (default_batches rng g))"
proof -
  let ?bs = "default_batches rng g"
  have shape: "length b = 1000" and bound: "\<forall>x \<in> set b. \<bar>x\<bar> \<le> 2 ^ 450"
    if "b \<in> set ?bs" for b
    using that default_batches_shape(2) [of rng g] default_batches_bounded [OF assms, of g]
    by blast+
  have len: "length ?bs = 10000" by (rule default_batches_shape)
  then have ne: "?bs \<noteq> []" by auto
  have small: "length (map f ?bs) < 2 ^ 64" for f :: "real list \<Rightarrow> real"
    using len by simp
  have stds: "\<forall>d \<in> set (map std_spec ?bs). \<bar>d\<bar> \<le> 2 ^ 452"
  proof -
    have "\<bar>std_spec b\<bar> \<le> 2 ^ 452" if "b \<in> set ?bs" for b
      using std_spec_le [of b "2 ^ 450"] shape [OF that] bound [OF that] by simp
    then show ?thesis by simp
  qed
  have mads: "\<forall>d \<in> set (map mad_spec ?bs). \<bar>d\<bar> \<le> 2 ^ 452"
  proof -
    have "\<bar>mad_spec b\<bar> \<le> 2 ^ 452" if "b \<in> set ?bs" for b
    proof -
      from shape [OF that] have "b \<noteq> []" by auto
      from mad_spec_le [OF this bound [OF that]] show ?thesis by simp
    qed
    then show ?thesis by simp
  qed
  have ne_s: "map std_spec ?bs \<noteq> []" and ne_m: "map mad_spec ?bs \<noteq> []"
    using ne by simp_all
  show "get_efficiency64 (map Fin (map std_spec ?bs)) = efficiency_spec (map std_spec ?bs)"
    using ne_s stds safe_count_452 [OF small [of std_spec]]
    by (rule get_efficiency64_exact)
  show "get_efficiency64 (map Fin (map mad_spec ?bs)) = efficiency_spec (map mad_spec ?bs)"
    using ne_m mads safe_count_452 [OF small [of mad_spec]]
    by (rule get_efficiency64_exact)
qed

text \<open>
  Claim C3: let the binomial sampler return 1 for one trial with success probability 1 and
  let every standard normal variate have magnitude at most \<open>2^450\<close>. The default call
  \<open>get_efficiency_sample()\<close> makes 10000 calls of the mixture sampler one after the other,
  call \<open>k\<close> starting from the generator state that call \<open>k - 1\<close> left and giving one batch of
  1000 samples; it takes the sample standard deviation and the mean absolute deviation of
  every batch; and it returns the efficiency of the array of standard deviations divided
  by the efficiency of the array of mean absolute deviations, the efficiency of an array
  being its variance divided by the square of its mean.
\<close>

theorem get_efficiency_sample_default64_result:
  assumes "\<forall>g. fst (binomial_draw rng 1 1 g) = 1"
      and "\<forall>g. \<bar>fst (standard_normal_draw rng g)\<bar> \<le> 2 ^ 450"
  shows "sets_of_samples64 rng 0 0 g =
           Inr (map (map Fin) (default_batches rng g), (after_default_call rng ^^ 10000) g) \<and>
         length (default_batches rng g) = 10000 \<and>
         map length (default_batches rng g) = replicate 10000 1000 \<and>
         map tstd64 (map (map Fin) (default_batches rng g)) =
           map Fin (map std_spec (default_batches rng g)) \<and>
         map mad64 (map (map Fin) (default_batches rng g)) =
           map Fin (map mad_spec (default_batches rng g)) \<and>
         get_efficiency_sample_default64 rng g =
           Inr (div64 (efficiency_spec (map std_spec (default_batches rng g)))
                      (efficiency_spec (map mad_spec (default_batches rng g))),
                (after_default_call rng ^^ 10000) g)"
proof -
  let ?bs = "default_batches rng g"
  note sets = sets_of_samples64_default [OF assms, of g]
  note arrays = dispersion_arrays_default [OF assms(2), of g]
  note eff = efficiency_default [OF assms(2), of g]
  have lens: "map length ?bs = replicate 10000 1000"
    using map_eq_replicate [of ?bs length 1000] default_batches_shape [of rng g]
    by simp
  have result: "get_efficiency_sample_default64 rng g =
           Inr (div64 (efficiency_spec (map std_spec ?bs)) (efficiency_spec (map mad_spec ?bs)),
                (after_default_call rng ^^ 10000) g)"
    by (simp only: get_efficiency_sample_default64_def get_efficiency_sample64_def sets
          sum.case prod.case Let_def arrays eff)
  have len: "length ?bs = 10000" by (rule default_batches_shape)
  show ?thesis by (intro conjI sets len lens arrays result)
qed

theorem get_efficiency_sample_default64_result_witness:
  "(\<forall>g. fst (binomial_draw cycling_generator 1 1 g) = 1) \<and>
   (\<forall>g. \<bar>fst (standard_normal_draw cycling_generator g)\<bar> \<le> 2 ^ 450) \<and>
   get_efficiency_sample_default64 cycling_generator 0 =
     Inr (div64 (efficiency_spec (map std_spec (default_batches cycling_generator 0)))
                (efficiency_spec (map mad_spec (default_batches cycling_generator 0))),
          (after_default_call cycling_generator ^^ 10000) 0)"
proof -
  have h1: "\<forall>g. fst (binomial_draw cycling_generator 1 1 g) = 1"
    by (simp add: cycling_generator_def)
  have h2: "\<forall>g. \<bar>fst (standard_normal_draw cycling_generator g)\<bar> \<le> 2 ^ 450"
    by (simp add: cycling_generator_def)
  from get_efficiency_sample_default64_result [OF h1 h2, of 0] h1 h2
  show ?thesis by blast
qed

end
